theory Spec2Isabelle
  imports Complex_Main "HOL-Library.Signed_Division" "HOL-Library.List_Lexorder" "HOL-Library.Char_ord"
begin

section \<open>The JavaScript \<open>Date\<close> object\<close>

text \<open>
  A \<open>Date\<close> is its time value: the milliseconds since 1970-01-01T00:00:00Z, an integer. The
  range limit of the time value (about 275000 years either side of 1970) is not modelled. The
  calendar functions are those of the ECMAScript specification (Day, DayFromYear, YearFromTime,
  InLeapYear, MonthFromTime, DateFromTime, WeekDay, MakeDay), on day numbers.
\<close>

type_synonym Date = int

definition msPerDay :: int where
  "msPerDay = 86400000"

definition msPerHour :: int where
  "msPerHour = 3600000"

definition msPerMinute :: int where
  "msPerMinute = 60000"

definition Day :: "int \<Rightarrow> int" where
  "Day t = t div msPerDay"

definition DayFromYear :: "int \<Rightarrow> int" where
  "DayFromYear y = 365 * (y - 1970) + (y - 1969) div 4 - (y - 1901) div 100 + (y - 1601) div 400"

text \<open>
  YearFromTime is the largest year whose first day is not after the given day. It is computed
  from the mean year length, which is off by at most one year (\<open>YearFromDay_bounds\<close> below).
\<close>

definition YearFromDay :: "int \<Rightarrow> int" where
  "YearFromDay d = (let g = 1970 + (400 * d) div 146097 in
     if DayFromYear (g + 1) \<le> d then g + 1 else if DayFromYear g \<le> d then g else g - 1)"

definition InLeapYear :: "int \<Rightarrow> int" where
  "InLeapYear y = (if y mod 4 \<noteq> 0 then 0 else if y mod 100 \<noteq> 0 then 1
     else if y mod 400 \<noteq> 0 then 0 else 1)"

text \<open>The day within the year on which month \<open>m\<close> (1 to 12) starts.\<close>

definition monthStart :: "int \<Rightarrow> int \<Rightarrow> int" where
  "monthStart y m =
    (if m = 1 then 0 else if m = 2 then 31 else
       InLeapYear y +
       (if m = 3 then 59 else if m = 4 then 90 else if m = 5 then 120 else if m = 6 then 151
        else if m = 7 then 181 else if m = 8 then 212 else if m = 9 then 243
        else if m = 10 then 273 else if m = 11 then 304 else 334))"

text \<open>MonthFromTime, numbered 1 to 12, from the year and the day within it.\<close>

definition MonthFromDay :: "int \<Rightarrow> int \<Rightarrow> int" where
  "MonthFromDay y dwy =
    (let l = InLeapYear y in
     if dwy < 31 then 1 else if dwy < 59 + l then 2 else if dwy < 90 + l then 3
     else if dwy < 120 + l then 4 else if dwy < 151 + l then 5 else if dwy < 181 + l then 6
     else if dwy < 212 + l then 7 else if dwy < 243 + l then 8 else if dwy < 273 + l then 9
     else if dwy < 304 + l then 10 else if dwy < 334 + l then 11 else 12)"

text \<open>The civil date (year, month 1 to 12, day of the month) of a day number.\<close>

definition civilFromDay :: "int \<Rightarrow> int \<times> int \<times> int" where
  "civilFromDay d =
    (let y = YearFromDay d; dwy = d - DayFromYear y; m = MonthFromDay y dwy
     in (y, m, dwy - monthStart y m + 1))"

text \<open>
  MakeDay: the day number of a year, a month index counted from 0 (months beyond the year carry
  into the year) and a day of the month (days beyond the month carry into the following days).
\<close>

definition MakeDay :: "int \<Rightarrow> int \<Rightarrow> int \<Rightarrow> int" where
  "MakeDay year month dt =
    (let ym = year + month div 12; mn = month mod 12
     in DayFromYear ym + monthStart ym (mn + 1) + dt - 1)"

text \<open>WeekDay: 0 is Sunday, 6 is Saturday; day 0 (1970-01-01) is a Thursday.\<close>

definition WeekDay :: "int \<Rightarrow> int" where
  "WeekDay d = (d + 4) mod 7"

subsection \<open>The date part of \<open>toISOString()\<close>\<close>

definition digit :: "nat \<Rightarrow> char" where
  "digit n = ''0123456789'' ! n"

fun showNat :: "nat \<Rightarrow> string" where
  "showNat n = (if n < 10 then [digit n] else showNat (n div 10) @ [digit (n mod 10)])"

declare showNat.simps [simp del]

definition padStart :: "nat \<Rightarrow> string \<Rightarrow> string" where
  "padStart w s = replicate (w - length s) (CHR ''0'') @ s"

text \<open>
  Years 0 to 9999 are written with four digits; any other year with a sign and at least six
  digits (the expanded years of ECMAScript).
\<close>

definition yearString :: "int \<Rightarrow> string" where
  "yearString y =
    (if 0 \<le> y \<and> y \<le> 9999 then padStart 4 (showNat (nat y))
     else (if y < 0 then CHR ''-'' else CHR ''+'') # padStart 6 (showNat (nat \<bar>y\<bar>)))"

definition isoDate :: "int \<times> int \<times> int \<Rightarrow> string" where
  "isoDate c = (case c of (y, m, d) \<Rightarrow>
     yearString y @ ''-'' @ padStart 2 (showNat (nat m)) @ ''-'' @ padStart 2 (showNat (nat d)))"

text \<open>\<open>date.toISOString().split('T')[0]\<close>: the civil date of the instant in UTC.\<close>

definition toISODate :: "Date \<Rightarrow> string" where
  "toISODate t = isoDate (civilFromDay (Day t))"

subsection \<open>Dates in the host's time zone\<close>

text \<open>
  \<open>new Date(year, monthIndex, day)\<close>, \<open>getDay()\<close> and \<open>getFullYear()\<close> read the clock of
  the machine the service runs on. Its zone is a parameter: \<open>tz\<close> is the host's offset from UTC
  in minutes, positive east of Greenwich, and is taken to be constant (no daylight saving).
  A year from 0 to 99 given to the constructor means 1900 plus that year.
\<close>

definition newDate :: "int \<Rightarrow> int \<Rightarrow> int \<Rightarrow> int \<Rightarrow> Date" where
  "newDate tz year monthIndex day =
    (let yr = (if 0 \<le> year \<and> year \<le> 99 then 1900 + year else year)
     in MakeDay yr monthIndex day * msPerDay - tz * msPerMinute)"

definition getDay :: "int \<Rightarrow> Date \<Rightarrow> int" where
  "getDay tz t = WeekDay (Day (t + tz * msPerMinute))"

definition getFullYear :: "int \<Rightarrow> Date \<Rightarrow> int" where
  "getFullYear tz t = YearFromDay (Day (t + tz * msPerMinute))"

definition getMonth :: "int \<Rightarrow> Date \<Rightarrow> int" where
  "getMonth tz t = fst (snd (civilFromDay (Day (t + tz * msPerMinute)))) - 1"

definition getDate :: "int \<Rightarrow> Date \<Rightarrow> int" where
  "getDate tz t = snd (snd (civilFromDay (Day (t + tz * msPerMinute))))"

section \<open>Facts about the calendar\<close>

subsection \<open>Years\<close>

lemma div_lower: "0 < k \<Longrightarrow> k * (x div k) \<le> (x::int)"
  by (metis mult.commute div_mult_mod_eq pos_mod_sign le_add_same_cancel1)

lemma div_upper: "0 < k \<Longrightarrow> (x::int) < k * (x div k) + k"
  by (metis mult.commute div_mult_mod_eq pos_mod_bound add_less_cancel_left)

lemma div_succ:
  fixes x k :: int
  assumes k: "0 < k"
  shows "(x + 1) div k = x div k + (if (x + 1) mod k = 0 then 1 else 0)"
proof -
  define q where "q = (x + 1) div k"
  define r where "r = (x + 1) mod k"
  have e: "k * q + r = x + 1" unfolding q_def r_def by (rule mult_div_mod_eq)
  have m: "0 \<le> r" "r < k" unfolding r_def using k by simp_all
  show ?thesis
  proof (cases "r = 0")
    case True
    have "x = k * (q - 1) + (k - 1)" using e True by (simp add: algebra_simps)
    moreover have "0 \<le> k - 1" "k - 1 < k" using k by simp_all
    ultimately have "x div k = q - 1" by (rule int_div_pos_eq)
    with True show ?thesis unfolding q_def r_def by simp
  next
    case False
    have "x = k * q + (r - 1)" using e by simp
    moreover have "0 \<le> r - 1" using False m by simp
    moreover have "r - 1 < k" using m by simp
    ultimately have "x div k = q" by (rule int_div_pos_eq)
    with False show ?thesis unfolding q_def r_def by simp
  qed
qed

lemma mod_shift_year:
  fixes y :: int
  shows "(y - 1968) mod 4 = y mod 4" "(y - 1900) mod 100 = y mod 100"
    "(y - 1600) mod 400 = y mod 400"
proof -
  have "(y + 4 * (- 492)) mod 4 = y mod 4" by (rule mod_mult_self2)
  then show "(y - 1968) mod 4 = y mod 4" by simp
  have "(y + 100 * (- 19)) mod 100 = y mod 100" by (rule mod_mult_self2)
  then show "(y - 1900) mod 100 = y mod 100" by simp
  have "(y + 400 * (- 4)) mod 400 = y mod 400" by (rule mod_mult_self2)
  then show "(y - 1600) mod 400 = y mod 400" by simp
qed

lemma DayFromYear_Suc: "DayFromYear (y + 1) = DayFromYear y + 365 + InLeapYear y"
proof -
  have a: "(y - 1969 + 1) div 4 = (y - 1969) div 4 + (if y mod 4 = 0 then 1 else 0)"
    using div_succ [of 4 "y - 1969"] mod_shift_year(1) [of y] by simp
  have b: "(y - 1901 + 1) div 100 = (y - 1901) div 100 + (if y mod 100 = 0 then 1 else 0)"
    using div_succ [of 100 "y - 1901"] mod_shift_year(2) [of y] by simp
  have c: "(y - 1601 + 1) div 400 = (y - 1601) div 400 + (if y mod 400 = 0 then 1 else 0)"
    using div_succ [of 400 "y - 1601"] mod_shift_year(3) [of y] by simp
  have e: "y + 1 - 1969 = y - 1969 + 1" "y + 1 - 1901 = y - 1901 + 1" "y + 1 - 1601 = y - 1601 + 1"
    by simp_all
  have d1: "y mod 400 = 0 \<Longrightarrow> y mod 100 = 0"
  proof -
    assume h: "y mod 400 = 0"
    have "(100::int) dvd 400" by simp
    then have "y mod 400 mod 100 = y mod 100" by (rule mod_mod_cancel)
    with h show ?thesis by simp
  qed
  have d2: "y mod 100 = 0 \<Longrightarrow> y mod 4 = 0"
  proof -
    assume h: "y mod 100 = 0"
    have "(4::int) dvd 100" by simp
    then have "y mod 100 mod 4 = y mod 4" by (rule mod_mod_cancel)
    with h show ?thesis by simp
  qed
  show ?thesis
    unfolding DayFromYear_def InLeapYear_def e a b c using d1 d2 by auto
qed

lemma InLeapYear_range: "InLeapYear y = 0 \<or> InLeapYear y = 1"
  by (simp add: InLeapYear_def)

lemma DayFromYear_less: "DayFromYear y < DayFromYear (y + 1)"
  using DayFromYear_Suc [of y] InLeapYear_range [of y] by auto

lemma DayFromYear_mono_nat: "DayFromYear y \<le> DayFromYear (y + int n)"
proof (induction n)
  case 0
  then show ?case by simp
next
  case (Suc n)
  have "DayFromYear (y + int n) < DayFromYear (y + int n + 1)" by (rule DayFromYear_less)
  moreover have "y + int n + 1 = y + int (Suc n)" by simp
  ultimately have "DayFromYear (y + int n) < DayFromYear (y + int (Suc n))" by simp
  with Suc show ?case by linarith
qed

lemma DayFromYear_mono: "y \<le> y' \<Longrightarrow> DayFromYear y \<le> DayFromYear y'"
  using DayFromYear_mono_nat [of y "nat (y' - y)"] by simp


lemma DayFromYear_split:
  obtains a b c where "DayFromYear (x + 1970) = 365 * x + a - b + c"
    "4 * a \<le> x + 1" "x + 1 < 4 * a + 4"
    "100 * b \<le> x + 69" "x + 69 < 100 * b + 100"
    "400 * c \<le> x + 369" "x + 369 < 400 * c + 400"
proof
  show "DayFromYear (x + 1970) = 365 * x + (x + 1) div 4 - (x + 69) div 100 + (x + 369) div 400"
    by (simp add: DayFromYear_def add.commute)
  show "4 * ((x + 1) div 4) \<le> x + 1" by (rule div_lower) simp
  show "x + 1 < 4 * ((x + 1) div 4) + 4" by (rule div_upper) simp
  show "100 * ((x + 69) div 100) \<le> x + 69" by (rule div_lower) simp
  show "x + 69 < 100 * ((x + 69) div 100) + 100" by (rule div_upper) simp
  show "400 * ((x + 369) div 400) \<le> x + 369" by (rule div_lower) simp
  show "x + 369 < 400 * ((x + 369) div 400) + 400" by (rule div_upper) simp
qed

lemma DayFromYear_lower: "146097 * x - 506 \<le> 400 * DayFromYear (x + 1970)"
proof -
  obtain a b c where "DayFromYear (x + 1970) = 365 * x + a - b + c"
    "4 * a \<le> x + 1" "x + 1 < 4 * a + 4"
    "100 * b \<le> x + 69" "x + 69 < 100 * b + 100"
    "400 * c \<le> x + 369" "x + 369 < 400 * c + 400" by (rule DayFromYear_split)
  then show ?thesis by linarith
qed

lemma DayFromYear_upper: "400 * DayFromYear (x + 1970) \<le> 146097 * x + 589"
proof -
  obtain a b c where "DayFromYear (x + 1970) = 365 * x + a - b + c"
    "4 * a \<le> x + 1" "x + 1 < 4 * a + 4"
    "100 * b \<le> x + 69" "x + 69 < 100 * b + 100"
    "400 * c \<le> x + 369" "x + 369 < 400 * c + 400" by (rule DayFromYear_split)
  then show ?thesis by linarith
qed

lemma YearFromDay_bounds:
  "DayFromYear (YearFromDay d) \<le> d \<and> d < DayFromYear (YearFromDay d + 1)"
proof -
  define x where "x = (400 * d) div 146097"
  have g1: "146097 * x \<le> 400 * d" unfolding x_def by (rule div_lower) simp
  have g2: "400 * d < 146097 * x + 146097" unfolding x_def by (rule div_upper) simp
  have "400 * DayFromYear (x - 1 + 1970) \<le> 146097 * x - 145508"
    using DayFromYear_upper [of "x - 1"] by (simp add: algebra_simps)
  with g1 have lo: "DayFromYear (x - 1 + 1970) \<le> d" by linarith
  have "146097 * x + 291688 \<le> 400 * DayFromYear (x + 2 + 1970)"
    using DayFromYear_lower [of "x + 2"] by (simp add: algebra_simps)
  with g2 have hi: "d < DayFromYear (x + 2 + 1970)" by linarith
  have e: "1970 + x - 1 = x - 1 + 1970" "1970 + x + 1 + 1 = x + 2 + 1970" by simp_all
  show ?thesis
    unfolding YearFromDay_def x_def [symmetric] Let_def using lo hi by (simp add: e)
qed

lemma YearFromDay_unique:
  assumes "DayFromYear y \<le> d" "d < DayFromYear (y + 1)"
  shows "YearFromDay d = y"
proof -
  let ?z = "YearFromDay d"
  have b: "DayFromYear ?z \<le> d" "d < DayFromYear (?z + 1)" using YearFromDay_bounds by auto
  have "\<not> ?z < y"
  proof
    assume "?z < y"
    then have "DayFromYear (?z + 1) \<le> DayFromYear y" by (intro DayFromYear_mono) simp
    with assms b show False by linarith
  qed
  moreover have "\<not> y < ?z"
  proof
    assume "y < ?z"
    then have "DayFromYear (y + 1) \<le> DayFromYear ?z" by (intro DayFromYear_mono) simp
    with assms b show False by linarith
  qed
  ultimately show ?thesis by simp
qed

subsection \<open>Months and days\<close>

lemma dayWithinYear_range:
  "0 \<le> d - DayFromYear (YearFromDay d) \<and> d - DayFromYear (YearFromDay d) < 365 + InLeapYear (YearFromDay d)"
  using YearFromDay_bounds [of d] DayFromYear_Suc [of "YearFromDay d"] by linarith

lemma MonthFromDay_range: "1 \<le> MonthFromDay y k \<and> MonthFromDay y k \<le> 12"
  by (simp add: MonthFromDay_def Let_def)

lemma monthDay_range:
  assumes "0 \<le> k" "k < 365 + InLeapYear y"
  shows "1 \<le> k - monthStart y (MonthFromDay y k) + 1 \<and> k - monthStart y (MonthFromDay y k) + 1 \<le> 31"
  using assms InLeapYear_range [of y]
  by (auto simp: MonthFromDay_def monthStart_def Let_def)

lemma civilFromDay_range:
  assumes "civilFromDay d = (y, m, dd)"
  shows "1 \<le> m \<and> m \<le> 12 \<and> 1 \<le> dd \<and> dd \<le> 31"
  using assms MonthFromDay_range [of "YearFromDay d" "d - DayFromYear (YearFromDay d)"]
    monthDay_range [OF dayWithinYear_range [of d, THEN conjunct1] dayWithinYear_range [of d, THEN conjunct2]]
  by (auto simp: civilFromDay_def Let_def)

lemma MakeDay_civilFromDay:
  assumes "civilFromDay d = (y, m, dd)"
  shows "MakeDay y (m - 1) dd = d"
proof -
  have r: "1 \<le> m" "m \<le> 12" using civilFromDay_range [OF assms] by auto
  then have "(m - 1) div 12 = 0" "(m - 1) mod 12 = m - 1" by simp_all
  then show ?thesis using assms by (auto simp: MakeDay_def civilFromDay_def Let_def)
qed

lemma civilFromDay_inj: "civilFromDay d = civilFromDay d' \<Longrightarrow> d = d'"
  by (metis MakeDay_civilFromDay prod_cases3)

subsection \<open>Reading a date string back\<close>

definition digitVal :: "char \<Rightarrow> nat" where
  "digitVal c = of_char c - 48"

definition readNat :: "string \<Rightarrow> nat" where
  "readNat s = foldl (\<lambda>a c. 10 * a + digitVal c) 0 s"

definition readYear :: "string \<Rightarrow> int" where
  "readYear s = (case s of [] \<Rightarrow> 0
     | c # r \<Rightarrow> if c = CHR ''-'' then - int (readNat r)
               else if c = CHR ''+'' then int (readNat r) else int (readNat s))"

definition isoParse :: "string \<Rightarrow> int \<times> int \<times> int" where
  "isoParse s = (let n = length s in
     (readYear (take (n - 6) s), int (readNat (take 2 (drop (n - 5) s))),
      int (readNat (drop (n - 2) s))))"

lemma below_ten: "n < 10 \<Longrightarrow> n \<in> {0, 1, 2, 3, 4, 5, 6, 7, 8, 9::nat}"
  by auto

lemma digitVal_digit: "n < 10 \<Longrightarrow> digitVal (digit n) = n"
  by (drule below_ten) (auto simp: digit_def digitVal_def)

lemma digit_not_sign: "n < 10 \<Longrightarrow> digit n \<noteq> CHR ''-'' \<and> digit n \<noteq> CHR ''+''"
  by (drule below_ten) (auto simp: digit_def)

lemma readNat_snoc: "readNat (s @ [c]) = 10 * readNat s + digitVal c"
  by (simp add: readNat_def)

lemma showNat_small: "n < 10 \<Longrightarrow> showNat n = [digit n]"
  by (subst showNat.simps) simp

lemma showNat_large: "\<not> n < 10 \<Longrightarrow> showNat n = showNat (n div 10) @ [digit (n mod 10)]"
  by (subst showNat.simps) simp

lemma readNat_showNat: "readNat (showNat n) = n"
proof (induction n rule: showNat.induct)
  case (1 n)
  show ?case
  proof (cases "n < 10")
    case True
    then show ?thesis by (simp add: showNat_small readNat_def digitVal_digit)
  next
    case False
    then have "readNat (showNat (n div 10)) = n div 10" using 1 by simp
    moreover have "showNat n = showNat (n div 10) @ [digit (n mod 10)]"
      using False by (rule showNat_large)
    ultimately show ?thesis by (simp add: readNat_snoc digitVal_digit)
  qed
qed

lemma showNat_not_Nil: "showNat n \<noteq> []"
  by (cases "n < 10") (simp_all add: showNat_small showNat_large)

lemma hd_showNat: "hd (showNat n) \<noteq> CHR ''-'' \<and> hd (showNat n) \<noteq> CHR ''+''"
proof (induction n rule: showNat.induct)
  case (1 n)
  show ?case
  proof (cases "n < 10")
    case True
    then show ?thesis using digit_not_sign [of n] by (simp add: showNat_small)
  next
    case False
    then have "showNat n = showNat (n div 10) @ [digit (n mod 10)]"
      by (rule showNat_large)
    then show ?thesis using 1 False showNat_not_Nil [of "n div 10"] by simp
  qed
qed

lemma foldl_zeros: "foldl (\<lambda>a c. 10 * a + digitVal c) 0 (replicate k (CHR ''0'')) = 0"
  by (induction k) (simp_all add: digitVal_def)

lemma readNat_padStart: "readNat (padStart w s) = readNat s"
  by (simp add: readNat_def padStart_def foldl_zeros)

lemma hd_padStart: "s \<noteq> [] \<Longrightarrow> hd s \<noteq> CHR ''-'' \<and> hd s \<noteq> CHR ''+'' \<Longrightarrow>
    hd (padStart w s) \<noteq> CHR ''-'' \<and> hd (padStart w s) \<noteq> CHR ''+''"
  by (cases "w - length s") (auto simp: padStart_def)

lemma padStart_not_Nil: "s \<noteq> [] \<Longrightarrow> padStart w s \<noteq> []"
  by (simp add: padStart_def)

lemma readYear_yearString: "readYear (yearString y) = y"
proof (cases "0 \<le> y \<and> y \<le> 9999")
  case True
  let ?s = "padStart 4 (showNat (nat y))"
  have ne: "?s \<noteq> []" by (simp add: padStart_not_Nil showNat_not_Nil)
  have h: "hd ?s \<noteq> CHR ''-'' \<and> hd ?s \<noteq> CHR ''+''"
    by (rule hd_padStart) (simp_all add: showNat_not_Nil hd_showNat)
  from ne h have "readYear ?s = int (readNat ?s)"
    by (cases ?s) (auto simp: readYear_def)
  with True show ?thesis by (simp add: yearString_def readNat_padStart readNat_showNat)
next
  case False
  then show ?thesis
    by (auto simp: yearString_def readYear_def readNat_padStart readNat_showNat)
qed

lemma length_showNat_two: "n < 100 \<Longrightarrow> length (padStart 2 (showNat n)) = 2"
proof -
  assume a: "n < 100"
  show ?thesis
  proof (cases "n < 10")
    case True
    then show ?thesis by (simp add: showNat_small padStart_def)
  next
    case False
    then have "n div 10 < 10" using a by simp
    then have "showNat (n div 10) = [digit (n div 10)]" by (rule showNat_small)
    then have "showNat n = [digit (n div 10), digit (n mod 10)]"
      using False by (simp add: showNat_large)
    then show ?thesis by (simp add: padStart_def)
  qed
qed

lemma isoParse_isoDate:
  assumes "0 \<le> m" "m < 100" "0 \<le> d" "d < 100"
  shows "isoParse (isoDate (y, m, d)) = (y, m, d)"
proof -
  let ?ys = "yearString y"
  let ?ms = "padStart 2 (showNat (nat m))"
  let ?ds = "padStart 2 (showNat (nat d))"
  have lm: "length ?ms = 2" using assms by (intro length_showNat_two) simp
  have ld: "length ?ds = 2" using assms by (intro length_showNat_two) simp
  have s: "isoDate (y, m, d) = ?ys @ CHR ''-'' # ?ms @ CHR ''-'' # ?ds" by (simp add: isoDate_def)
  have n: "length (isoDate (y, m, d)) = length ?ys + 6" unfolding s using lm ld by simp
  have "take (length ?ys) (isoDate (y, m, d)) = ?ys" unfolding s by simp
  moreover have "take 2 (drop (length ?ys + 1) (isoDate (y, m, d))) = ?ms"
    unfolding s using lm by simp
  moreover have "drop (length ?ys + 4) (isoDate (y, m, d)) = ?ds"
    unfolding s using lm by simp
  ultimately have "isoParse (isoDate (y, m, d)) = (readYear ?ys, int (readNat ?ms), int (readNat ?ds))"
    unfolding isoParse_def Let_def n by (simp add: add.commute)
  then show ?thesis
    using assms by (simp add: readYear_yearString readNat_padStart readNat_showNat)
qed

lemma isoDate_civilFromDay_inj:
  assumes "isoDate (civilFromDay d) = isoDate (civilFromDay d')"
  shows "d = d'"
proof -
  obtain y m dd where c: "civilFromDay d = (y, m, dd)" by (rule prod_cases3)
  obtain y' m' dd' where c': "civilFromDay d' = (y', m', dd')" by (rule prod_cases3)
  have p: "isoParse (isoDate (y, m, dd)) = (y, m, dd)"
    using civilFromDay_range [OF c] by (intro isoParse_isoDate) auto
  have p': "isoParse (isoDate (y', m', dd')) = (y', m', dd')"
    using civilFromDay_range [OF c'] by (intro isoParse_isoDate) auto
  have e: "isoDate (y, m, dd) = isoDate (y', m', dd')" using assms by (simp only: c c')
  have "(y, m, dd) = isoParse (isoDate (y, m, dd))" by (simp only: p)
  also have "\<dots> = isoParse (isoDate (y', m', dd'))" by (simp only: e)
  also have "\<dots> = (y', m', dd')" by (simp only: p')
  finally have "civilFromDay d = civilFromDay d'" by (simp only: c c')
  then show ?thesis by (rule civilFromDay_inj)
qed

lemma finite_holiday_days: "finite {d. isoDate (civilFromDay d) \<in> set hs}"
proof -
  have "inj (\<lambda>d. isoDate (civilFromDay d))" by (rule injI) (rule isoDate_civilFromDay_inj)
  then have "finite ((\<lambda>d. isoDate (civilFromDay d)) -` set hs)" by (intro finite_vimageI) simp_all
  then show ?thesis by (simp add: vimage_def)
qed

section \<open>Luxon \<open>DateTime\<close> in the zone America/Bogota\<close>

text \<open>
  Every \<open>DateTime\<close> of the program is made by \<open>setZone('America/Bogota')\<close>, and \<open>plus\<close>,
  \<open>minus\<close> and \<open>set\<close> keep the zone. The zone is taken at its fixed offset of five hours behind
  UTC (no daylight saving), so a \<open>DateTime\<close> is represented by its local reading: the
  milliseconds of the Bogota wall clock since 1970-01-01T00:00 local time.
\<close>

datatype DateTime = DateTime (localMillis: int)

definition bogotaOffset :: int where
  "bogotaOffset = - 5 * msPerHour"

definition fromJSDate :: "Date \<Rightarrow> DateTime" where
  "fromJSDate t = DateTime (t + bogotaOffset)"

definition toJSDate :: "DateTime \<Rightarrow> Date" where
  "toJSDate dt = localMillis dt - bogotaOffset"

definition hour :: "DateTime \<Rightarrow> int" where
  "hour dt = (localMillis dt div msPerHour) mod 24"

definition minute :: "DateTime \<Rightarrow> int" where
  "minute dt = (localMillis dt div msPerMinute) mod 60"

text \<open>Luxon numbers the weekdays 1 (Monday) to 7 (Sunday).\<close>

definition weekday :: "DateTime \<Rightarrow> int" where
  "weekday dt = (let w = WeekDay (Day (localMillis dt)) in if w = 0 then 7 else w)"

definition plusDays :: "DateTime \<Rightarrow> int \<Rightarrow> DateTime" where
  "plusDays dt n = DateTime (localMillis dt + n * msPerDay)"

definition minusDays :: "DateTime \<Rightarrow> int \<Rightarrow> DateTime" where
  "minusDays dt n = DateTime (localMillis dt - n * msPerDay)"

text \<open>\<open>dt.set({ hour: h, minute: m, second: 0, millisecond: 0 })\<close>: same civil date.\<close>

definition setTime :: "DateTime \<Rightarrow> int \<Rightarrow> int \<Rightarrow> DateTime" where
  "setTime dt h m = DateTime (Day (localMillis dt) * msPerDay + h * msPerHour + m * msPerMinute)"

text \<open>
  \<open>dt.plus({ hours: x })\<close> for a number \<open>x\<close> of hours that need not be whole. Numbers are
  rationals here: the rounding of binary floating point is not modelled.
\<close>

definition plusHours :: "DateTime \<Rightarrow> rat \<Rightarrow> DateTime" where
  "plusHours dt x = DateTime (localMillis dt + \<lfloor>x * of_int msPerHour\<rfloor>)"

text \<open>\<open>a.diff(b).milliseconds\<close>.\<close>

definition diffMillis :: "DateTime \<Rightarrow> DateTime \<Rightarrow> int" where
  "diffMillis a b = localMillis a - localMillis b"

section \<open>types\<close>

record BusinessHours =
  startHour :: int
  startMinute :: int
  endHour :: int
  endMinute :: int
  lunchStartHour :: int
  lunchStartMinute :: int
  lunchEndHour :: int
  lunchEndMinute :: int

definition BusinessHoursConfig :: BusinessHours where
  "BusinessHoursConfig = \<lparr> startHour = 8, startMinute = 0, endHour = 17, endMinute = 0,
     lunchStartHour = 12, lunchStartMinute = 0, lunchEndHour = 13, lunchEndMinute = 0 \<rparr>"

datatype HolidayType = national | regional

record ColombianHoliday =
  date :: string
  name :: string
  type :: HolidayType

section \<open>holidayService\<close>

text \<open>
  The service object: the memo of the provider's list, and what a request to the provider
  delivers (\<open>None\<close> when the request fails). The provider's answer is taken to be the same for
  the length of one calculation.
\<close>

record HolidayService =
  allHolidaysCache :: "string list option"
  provider :: "string list option"

text \<open>Month, day and name of each rule. The names are written without their accents.\<close>

definition FIXED_HOLIDAYS :: "(int \<times> int \<times> string) list" where
  "FIXED_HOLIDAYS =
    [(1, 1, ''Ano Nuevo''), (5, 1, ''Dia del Trabajo''), (7, 20, ''Dia de la Independencia''),
     (8, 7, ''Batalla de Boyaca''), (12, 8, ''Inmaculada Concepcion''), (12, 25, ''Navidad'')]"

definition MOVABLE_HOLIDAYS :: "(int \<times> int \<times> string) list" where
  "MOVABLE_HOLIDAYS =
    [(1, 6, ''Dia de los Reyes Magos''), (3, 19, ''Dia de San Jose''),
     (6, 29, ''San Pedro y San Pablo''), (8, 15, ''Asuncion de la Virgen''),
     (10, 12, ''Dia de la Raza''), (11, 1, ''Dia de Todos los Santos''),
     (11, 11, ''Independencia de Cartagena'')]"

text \<open>
  \<open>fetchAllHolidays\<close>: the memo when there is one (an empty array counts), else the provider's
  list, which is memoised, else the empty list, which is not.
\<close>

definition fetchAllHolidays :: "HolidayService \<Rightarrow> string list \<times> HolidayService" where
  "fetchAllHolidays svc =
    (case allHolidaysCache svc of
       Some cached \<Rightarrow> (cached, svc)
     | None \<Rightarrow>
        (case provider svc of
           Some holidays \<Rightarrow> (holidays, svc\<lparr>allHolidaysCache := Some holidays\<rparr>)
         | None \<Rightarrow> ([], svc)))"

text \<open>
  \<open>calculateEaster\<close>. \<open>Math.floor(a / b)\<close> is \<open>div\<close>; the remainder operator of JavaScript
  takes the sign of the dividend and is \<open>smod\<close>.
\<close>

definition easterMonthDay :: "int \<Rightarrow> int \<times> int" where
  "easterMonthDay year =
    (let a = year smod 19;
         b = year div 100;
         c = year smod 100;
         d = b div 4;
         e = b smod 4;
         f = (b + 8) div 25;
         g = (b - f + 1) div 3;
         h = (19 * a + b - d - g + 15) smod 30;
         i = c div 4;
         k = c smod 4;
         l = (32 + 2 * e + 2 * i - h - k) smod 7;
         m = (a + 11 * h + 22 * l) div 451;
         month = (h + l - 7 * m + 114) div 31;
         day = ((h + l - 7 * m + 114) smod 31) + 1
     in (month, day))"

definition calculateEaster :: "int \<Rightarrow> int \<Rightarrow> Date" where
  "calculateEaster tz year =
    (case easterMonthDay year of (month, day) \<Rightarrow> newDate tz year (month - 1) day)"

definition moveToNextMonday :: "int \<Rightarrow> Date \<Rightarrow> Date" where
  "moveToNextMonday tz d =
    (if getDay tz d = 1 then d
     else let daysToAdd = (8 - getDay tz d) smod 7
          in d + daysToAdd * 24 * 60 * 60 * 1000)"

definition fixedHoliday :: "int \<Rightarrow> int \<Rightarrow> int \<times> int \<times> string \<Rightarrow> ColombianHoliday" where
  "fixedHoliday tz year holiday = (case holiday of (month, day, nm) \<Rightarrow>
     let d = newDate tz year (month - 1) day
     in \<lparr> date = toISODate d, name = nm, type = national \<rparr>)"

definition movableHoliday :: "int \<Rightarrow> int \<Rightarrow> int \<times> int \<times> string \<Rightarrow> ColombianHoliday" where
  "movableHoliday tz year holiday = (case holiday of (month, day, nm) \<Rightarrow>
     let originalDate = newDate tz year (month - 1) day;
         finalDate =
           (if getDay tz originalDate \<noteq> 1
            then let daysToAdd = (8 - getDay tz originalDate) smod 7
                 in originalDate + daysToAdd * 24 * 60 * 60 * 1000
            else originalDate)
     in \<lparr> date = toISODate finalDate, name = nm, type = national \<rparr>)"

text \<open>
  \<open>calculateColombianHolidays\<close>. The sort is stable and compares the date strings, which all
  have the same shape, character by character.
\<close>

definition calculateColombianHolidays :: "int \<Rightarrow> int \<Rightarrow> ColombianHoliday list" where
  "calculateColombianHolidays tz year =
    (let easterDate = calculateEaster tz year;
         holyThursday = easterDate - 3 * 24 * 60 * 60 * 1000;
         goodFriday = easterDate - 2 * 24 * 60 * 60 * 1000;
         ascension = easterDate + 39 * 24 * 60 * 60 * 1000;
         corpusChristi = easterDate + 60 * 24 * 60 * 60 * 1000;
         sacredHeart = easterDate + 68 * 24 * 60 * 60 * 1000
     in sort_key date
         (map (fixedHoliday tz year) FIXED_HOLIDAYS @
          map (movableHoliday tz year) MOVABLE_HOLIDAYS @
          [\<lparr> date = toISODate holyThursday, name = ''Jueves Santo'', type = national \<rparr>,
           \<lparr> date = toISODate goodFriday, name = ''Viernes Santo'', type = national \<rparr>,
           \<lparr> date = toISODate (moveToNextMonday tz ascension),
             name = ''Ascension del Senor'', type = national \<rparr>,
           \<lparr> date = toISODate (moveToNextMonday tz corpusChristi),
             name = ''Corpus Christi'', type = national \<rparr>,
           \<lparr> date = toISODate (moveToNextMonday tz sacredHeart),
             name = ''Sagrado Corazon de Jesus'', type = national \<rparr>]))"

text \<open>\<open>isHoliday\<close>: the UTC date string of the instant is looked up in the provider's list.\<close>

definition isHoliday :: "HolidayService \<Rightarrow> Date \<Rightarrow> bool \<times> HolidayService" where
  "isHoliday svc d =
    (let dateStr = toISODate d in
     case fetchAllHolidays svc of (allHolidays, svc') \<Rightarrow> (dateStr \<in> set allHolidays, svc'))"

section \<open>dateUtils\<close>

definition utcToColombiaTime :: "Date \<Rightarrow> DateTime" where
  "utcToColombiaTime d = fromJSDate d"

definition colombiaTimeToUtc :: "DateTime \<Rightarrow> Date" where
  "colombiaTimeToUtc dt = toJSDate dt"

definition isWorkingDay :: "HolidayService \<Rightarrow> Date \<Rightarrow> bool" where
  "isWorkingDay svc d =
    (let colombiaTime = utcToColombiaTime d;
         dayOfWeek = weekday colombiaTime
     in if dayOfWeek = 6 \<or> dayOfWeek = 7 then False
        else \<not> fst (isHoliday svc d))"

definition isWithinBusinessHours :: "DateTime \<Rightarrow> bool" where
  "isWithinBusinessHours dt =
    (let cfg = BusinessHoursConfig; h = hour dt; m = minute dt in
     if h < startHour cfg \<or> (h = startHour cfg \<and> m < startMinute cfg) then False
     else if h > endHour cfg \<or> (h = endHour cfg \<and> m > endMinute cfg) then False
     else if (h = lunchStartHour cfg \<and> m \<ge> lunchStartMinute cfg) \<or>
             (h > lunchStartHour cfg \<and> h < lunchEndHour cfg) \<or>
             (h = lunchEndHour cfg \<and> m \<le> lunchEndMinute cfg) then False
     else True)"

text \<open>One turn of the first loop of \<open>adjustToPreviousWorkingTime\<close>, and of its branch for a
  time before the start of business: the day before, at the end of business.\<close>

definition previousDayEnd :: "DateTime \<Rightarrow> DateTime" where
  "previousDayEnd currentDate =
    setTime (minusDays currentDate 1) (endHour BusinessHoursConfig) (endMinute BusinessHoursConfig)"

text \<open>The loop \<open>while (!await isWorkingDay(currentDate.toJSDate()))\<close>.\<close>

function adjustToWorkingDay :: "HolidayService \<Rightarrow> DateTime \<Rightarrow> DateTime" where
  "adjustToWorkingDay svc currentDate =
    (if \<not> isWorkingDay svc (toJSDate currentDate)
     then adjustToWorkingDay svc (previousDayEnd currentDate)
     else currentDate)"
  by pat_completeness auto

subsection \<open>Clock arithmetic\<close>

lemma Day_add: "0 \<le> r \<Longrightarrow> r < msPerDay \<Longrightarrow> Day (d * msPerDay + r) = d"
  unfolding Day_def msPerDay_def by (simp add: div_pos_pos_trivial)

lemma Day_minus: "Day (t - n * msPerDay) = Day t - n"
  unfolding Day_def msPerDay_def by simp

lemma Day_plus: "Day (t + n * msPerDay) = Day t + n"
  unfolding Day_def msPerDay_def by simp

lemma Day_setTime:
  "0 \<le> h \<Longrightarrow> h < 24 \<Longrightarrow> 0 \<le> m \<Longrightarrow> m < 60 \<Longrightarrow> Day (localMillis (setTime c h m)) = Day (localMillis c)"
proof -
  assume a: "0 \<le> h" "h < 24" "0 \<le> m" "m < 60"
  have "Day (Day (localMillis c) * msPerDay + (h * msPerHour + m * msPerMinute)) = Day (localMillis c)"
    using a by (intro Day_add) (simp_all add: msPerHour_def msPerMinute_def msPerDay_def)
  then show ?thesis by (simp add: setTime_def add.assoc)
qed

lemma hour_setTime:
  "0 \<le> h \<Longrightarrow> h < 24 \<Longrightarrow> 0 \<le> m \<Longrightarrow> m < 60 \<Longrightarrow> hour (setTime c h m) = h"
proof -
  assume a: "0 \<le> h" "h < 24" "0 \<le> m" "m < 60"
  define D where "D = Day (localMillis c)"
  have e: "D * msPerDay + h * msPerHour + m * msPerMinute = msPerHour * (D * 24 + h) + m * msPerMinute"
    by (simp add: msPerDay_def msPerHour_def algebra_simps)
  have "(msPerHour * (D * 24 + h) + m * msPerMinute) div msPerHour = D * 24 + h"
    using a by (intro int_div_pos_eq [where r = "m * msPerMinute"]) (simp_all add: msPerHour_def msPerMinute_def)
  then show ?thesis using a by (simp add: hour_def setTime_def D_def [symmetric] e)
qed

lemma minute_setTime:
  "0 \<le> h \<Longrightarrow> h < 24 \<Longrightarrow> 0 \<le> m \<Longrightarrow> m < 60 \<Longrightarrow> minute (setTime c h m) = m"
proof -
  assume a: "0 \<le> h" "h < 24" "0 \<le> m" "m < 60"
  define D where "D = Day (localMillis c)"
  have e: "D * msPerDay + h * msPerHour + m * msPerMinute = msPerMinute * ((D * 24 + h) * 60 + m)"
    by (simp add: msPerDay_def msPerHour_def msPerMinute_def algebra_simps)
  have "(msPerMinute * ((D * 24 + h) * 60 + m)) div msPerMinute = (D * 24 + h) * 60 + m"
    by (simp add: msPerMinute_def)
  moreover have "((D * 24 + h) * 60 + m) mod 60 = m mod 60" by (rule mod_mult_self3)
  moreover have "m mod 60 = m" using a by simp
  ultimately show ?thesis by (simp only: minute_def setTime_def D_def [symmetric] e DateTime.sel)
qed

lemma toJSDate_eq: "toJSDate c = localMillis c + 5 * msPerHour"
  by (simp add: toJSDate_def bogotaOffset_def)

lemma Day_toJSDate:
  "Day (toJSDate c) = Day (localMillis c) \<or> Day (toJSDate c) = Day (localMillis c) + 1"
proof -
  define t where "t = localMillis c"
  define q where "q = t div msPerDay"
  define r where "r = t mod msPerDay"
  have e: "t = q * msPerDay + r" unfolding q_def r_def by simp
  have r: "0 \<le> r" "r < msPerDay" unfolding r_def by (simp_all add: msPerDay_def)
  have q: "Day t = q" by (simp add: Day_def q_def)
  show ?thesis
  proof (cases "r + 5 * msPerHour < msPerDay")
    case True
    have "Day (q * msPerDay + (r + 5 * msPerHour)) = q"
      using r True by (intro Day_add) (simp_all add: msPerHour_def)
    moreover have "q * msPerDay + (r + 5 * msPerHour) = t + 5 * msPerHour"
      by (simp add: e)
    ultimately have "Day (t + 5 * msPerHour) = q" by simp
    then show ?thesis unfolding toJSDate_eq t_def [symmetric] q by simp
  next
    case False
    have "Day ((q + 1) * msPerDay + (r + 5 * msPerHour - msPerDay)) = q + 1"
      using r False by (intro Day_add) (simp_all add: msPerHour_def msPerDay_def)
    moreover have "(q + 1) * msPerDay + (r + 5 * msPerHour - msPerDay) = t + 5 * msPerHour"
      by (simp add: e algebra_simps)
    ultimately have "Day (t + 5 * msPerHour) = q + 1" by simp
    then show ?thesis unfolding toJSDate_eq t_def [symmetric] q by simp
  qed
qed

subsection \<open>Working days and the provider's list\<close>

definition holidayDays :: "HolidayService \<Rightarrow> int set" where
  "holidayDays svc = {d. isoDate (civilFromDay d) \<in> set (fst (fetchAllHolidays svc))}"

lemma finite_holidayDays: "finite (holidayDays svc)"
  unfolding holidayDays_def by (rule finite_holiday_days)

lemma fst_isHoliday: "fst (isHoliday svc t) = (Day t \<in> holidayDays svc)"
  by (simp add: isHoliday_def holidayDays_def toISODate_def split: prod.splits)

lemma utcToColombiaTime_toJSDate: "utcToColombiaTime (toJSDate c) = c"
  by (simp add: utcToColombiaTime_def toJSDate_def fromJSDate_def)

lemma isWorkingDay_iff:
  "isWorkingDay svc (toJSDate c) \<longleftrightarrow>
     weekday c \<noteq> 6 \<and> weekday c \<noteq> 7 \<and> Day (toJSDate c) \<notin> holidayDays svc"
  by (auto simp: isWorkingDay_def utcToColombiaTime_toJSDate fst_isHoliday Let_def)

lemma weekday_of_Day: "weekday c = (Day (localMillis c) + 3) mod 7 + 1"
proof -
  define D where "D = Day (localMillis c)"
  define r where "r = (D + 3) mod 7"
  have r: "0 \<le> r" "r < 7" unfolding r_def by simp_all
  have "(D + 3 + 1) mod 7 = ((D + 3) mod 7 + 1) mod 7" by (simp only: mod_add_left_eq)
  moreover have "D + 3 + 1 = D + 4" by simp
  ultimately have e: "(D + 4) mod 7 = (r + 1) mod 7" by (simp only: r_def)
  show ?thesis
  proof (cases "r = 6")
    case True
    with e show ?thesis by (simp add: weekday_def WeekDay_def Let_def D_def [symmetric] r_def [symmetric])
  next
    case False
    with r have "(r + 1) mod 7 = r + 1" by simp
    with e r show ?thesis by (simp add: weekday_def WeekDay_def Let_def D_def [symmetric] r_def [symmetric])
  qed
qed

lemma weekday_range: "1 \<le> weekday c \<and> weekday c \<le> 7"
proof -
  have "0 \<le> (Day (localMillis c) + 3) mod 7" "(Day (localMillis c) + 3) mod 7 < 7" by simp_all
  then show ?thesis unfolding weekday_of_Day by linarith
qed

lemma weekday_succ:
  assumes "Day (localMillis c') = Day (localMillis c) + 1"
  shows "weekday c' = (if weekday c = 7 then 1 else weekday c + 1)"
proof -
  define r where "r = (Day (localMillis c) + 3) mod 7"
  have r: "0 \<le> r" "r < 7" unfolding r_def by simp_all
  have "(Day (localMillis c) + 3 + 1) mod 7 = ((Day (localMillis c) + 3) mod 7 + 1) mod 7"
    by (simp only: mod_add_left_eq)
  moreover have "Day (localMillis c) + 3 + 1 = Day (localMillis c) + 1 + 3" by simp
  ultimately have e: "(Day (localMillis c) + 1 + 3) mod 7 = (r + 1) mod 7" by (simp only: r_def)
  show ?thesis
  proof (cases "r = 6")
    case True
    with e show ?thesis unfolding weekday_of_Day assms r_def [symmetric] by simp
  next
    case False 
    with r have "(r + 1) mod 7 = r + 1" by simp
    with e False show ?thesis unfolding weekday_of_Day assms r_def [symmetric] by simp
  qed
qed

lemma weekday_pred:
  assumes "Day (localMillis c') = Day (localMillis c) - 1"
  shows "weekday c' = (if weekday c = 1 then 7 else weekday c - 1)"
proof -
  have "Day (localMillis c) = Day (localMillis c') + 1" using assms by simp
  then have "weekday c = (if weekday c' = 7 then 1 else weekday c' + 1)" by (rule weekday_succ)
  then show ?thesis using weekday_range [of c'] by (auto split: if_splits)
qed

lemma Day_previousDayEnd: "Day (localMillis (previousDayEnd c)) = Day (localMillis c) - 1"
  using Day_minus [of "localMillis c" 1]
  by (simp add: previousDayEnd_def BusinessHoursConfig_def Day_setTime minusDays_def)

definition lowDay :: "HolidayService \<Rightarrow> int" where
  "lowDay svc = (if holidayDays svc = {} then 0 else Min (holidayDays svc))"

definition backMeasure :: "HolidayService \<Rightarrow> DateTime \<Rightarrow> nat" where
  "backMeasure svc c =
    (let d = Day (localMillis c) in
     if lowDay svc - 1 \<le> d then nat (d - (lowDay svc - 1)) + 3
     else if weekday c = 7 then 2 else if weekday c = 6 then 1 else 0)"

lemma below_lowDay: "d < lowDay svc \<Longrightarrow> d \<notin> holidayDays svc"
  using Min_le [OF finite_holidayDays, of d svc] by (auto simp: lowDay_def split: if_splits)

lemma backMeasure_decreases:
  assumes "\<not> isWorkingDay svc (toJSDate c)"
  shows "backMeasure svc (previousDayEnd c) < backMeasure svc c"
proof (cases "lowDay svc - 1 \<le> Day (localMillis c)")
  case True
  then show ?thesis by (auto simp: backMeasure_def Let_def Day_previousDayEnd)
next
  case False
  then have "Day (toJSDate c) < lowDay svc" using Day_toJSDate [of c] by auto
  then have "Day (toJSDate c) \<notin> holidayDays svc" by (rule below_lowDay)
  with assms have w: "weekday c = 6 \<or> weekday c = 7" by (simp add: isWorkingDay_iff)
  have "weekday (previousDayEnd c) = (if weekday c = 1 then 7 else weekday c - 1)"
    by (rule weekday_pred) (rule Day_previousDayEnd)
  with w False show ?thesis by (auto simp: backMeasure_def Let_def Day_previousDayEnd)
qed

termination adjustToWorkingDay
  by (relation "measure (\<lambda>(svc, c). backMeasure svc c)") (simp_all add: backMeasure_decreases)

declare adjustToWorkingDay.simps [simp del]

lemma adjustToWorkingDay_done:
  "isWorkingDay svc (toJSDate c) \<Longrightarrow> adjustToWorkingDay svc c = c"
  by (subst adjustToWorkingDay.simps) simp

lemma adjustToWorkingDay_step:
  "\<not> isWorkingDay svc (toJSDate c) \<Longrightarrow>
    adjustToWorkingDay svc c = adjustToWorkingDay svc (previousDayEnd c)"
  by (subst adjustToWorkingDay.simps) simp

lemma adjustToWorkingDay_time:
  "adjustToWorkingDay svc c = c \<or>
   (hour (adjustToWorkingDay svc c) = 17 \<and> minute (adjustToWorkingDay svc c) = 0)"
proof (induction svc c rule: adjustToWorkingDay.induct)
  case (1 svc c)
  show ?case
  proof (cases "isWorkingDay svc (toJSDate c)")
    case True
    then show ?thesis by (simp add: adjustToWorkingDay_done)
  next
    case False
    have "hour (previousDayEnd c) = 17" "minute (previousDayEnd c) = 0"
      by (simp_all add: previousDayEnd_def BusinessHoursConfig_def hour_setTime minute_setTime)
    with 1 [OF False] False show ?thesis by (auto simp: adjustToWorkingDay_step)
  qed
qed

lemma minute_nonneg: "0 \<le> minute c"
  by (simp add: minute_def)

text \<open>\<open>adjustToPreviousWorkingTime\<close>: the loop, then the adjustment within the day, which for a
  time before the start of business calls the function again on the previous day's end.\<close>

function adjustToPreviousWorkingTime :: "HolidayService \<Rightarrow> Date \<Rightarrow> Date" where
  "adjustToPreviousWorkingTime svc d =
    (let cfg = BusinessHoursConfig;
         currentDate = adjustToWorkingDay svc (utcToColombiaTime d)
     in if \<not> isWithinBusinessHours currentDate then
          if hour currentDate < startHour cfg \<or>
             (hour currentDate = startHour cfg \<and> minute currentDate < startMinute cfg)
          then adjustToPreviousWorkingTime svc (colombiaTimeToUtc (previousDayEnd currentDate))
          else
            let currentDate1 =
                  (if hour currentDate > endHour cfg \<or>
                      (hour currentDate = endHour cfg \<and> minute currentDate > endMinute cfg)
                   then setTime currentDate (endHour cfg) (endMinute cfg)
                   else currentDate);
                currentDate2 =
                  (if (hour currentDate1 > lunchStartHour cfg \<or>
                       (hour currentDate1 = lunchStartHour cfg \<and>
                        minute currentDate1 \<ge> lunchStartMinute cfg)) \<and>
                      (hour currentDate1 < lunchEndHour cfg \<or>
                       (hour currentDate1 = lunchEndHour cfg \<and>
                        minute currentDate1 < lunchEndMinute cfg))
                   then setTime currentDate1 (lunchStartHour cfg) (lunchStartMinute cfg)
                   else currentDate1)
            in colombiaTimeToUtc currentDate2
        else colombiaTimeToUtc currentDate)"
  by pat_completeness auto

lemma utcToColombiaTime_colombiaTimeToUtc: "utcToColombiaTime (colombiaTimeToUtc c) = c"
  by (simp add: utcToColombiaTime_def colombiaTimeToUtc_def toJSDate_def fromJSDate_def)

termination adjustToPreviousWorkingTime
proof (relation "measure (\<lambda>(svc, d). if hour (utcToColombiaTime d) < 8 then 1 else 0)", goal_cases)
  case 1
  show ?case by simp
next
  case (2 svc d cfg currentDate)
  have h: "hour currentDate < 8"
    using 2 minute_nonneg [of currentDate] by (auto simp: BusinessHoursConfig_def)
  have "currentDate = utcToColombiaTime d"
    using adjustToWorkingDay_time [of svc "utcToColombiaTime d"] h 2(2) by auto
  moreover have "hour (previousDayEnd currentDate) = 17"
    by (simp add: previousDayEnd_def BusinessHoursConfig_def hour_setTime)
  ultimately show ?case using h by (simp add: utcToColombiaTime_colombiaTimeToUtc)
qed

declare adjustToPreviousWorkingTime.simps [simp del]

section \<open>workingDaysService\<close>

text \<open>The inner loop of \<open>addWorkingDays\<close>: forward by whole days to a working day.\<close>

function skipToWorkingDay :: "HolidayService \<Rightarrow> DateTime \<Rightarrow> DateTime" where
  "skipToWorkingDay svc currentDate =
    (if \<not> isWorkingDay svc (toJSDate currentDate)
     then skipToWorkingDay svc (plusDays currentDate 1)
     else currentDate)"
  by pat_completeness auto

definition highDay :: "HolidayService \<Rightarrow> int" where
  "highDay svc = (if holidayDays svc = {} then 0 else Max (holidayDays svc))"

definition forwardMeasure :: "HolidayService \<Rightarrow> DateTime \<Rightarrow> nat" where
  "forwardMeasure svc c =
    (let d = Day (localMillis c) in
     if d \<le> highDay svc then nat (highDay svc - d) + 3
     else if weekday c = 6 then 2 else if weekday c = 7 then 1 else 0)"

lemma above_highDay: "highDay svc < d \<Longrightarrow> d \<notin> holidayDays svc"
  using Max_ge [OF finite_holidayDays, of d svc] by (auto simp: highDay_def split: if_splits)

lemma forwardMeasure_decreases:
  assumes "\<not> isWorkingDay svc (toJSDate c)" "Day (localMillis c') = Day (localMillis c) + 1"
  shows "forwardMeasure svc c' < forwardMeasure svc c"
proof (cases "Day (localMillis c) \<le> highDay svc")
  case True
  then show ?thesis by (auto simp: forwardMeasure_def Let_def assms(2))
next
  case False
  then have "highDay svc < Day (toJSDate c)" using Day_toJSDate [of c] by auto
  then have "Day (toJSDate c) \<notin> holidayDays svc" by (rule above_highDay)
  with assms have w: "weekday c = 6 \<or> weekday c = 7" by (simp add: isWorkingDay_iff)
  have "weekday c' = (if weekday c = 7 then 1 else weekday c + 1)"
    by (rule weekday_succ) (rule assms(2))
  with w False show ?thesis by (auto simp: forwardMeasure_def Let_def assms(2))
qed

lemma Day_plusDays: "Day (localMillis (plusDays c n)) = Day (localMillis c) + n"
  by (simp add: plusDays_def Day_plus)

termination skipToWorkingDay
  by (relation "measure (\<lambda>(svc, c). forwardMeasure svc c)")
     (simp_all add: forwardMeasure_decreases Day_plusDays)

declare skipToWorkingDay.simps [simp del]

function addWorkingDays_loop :: "HolidayService \<Rightarrow> rat \<Rightarrow> DateTime \<Rightarrow> int \<Rightarrow> DateTime" where
  "addWorkingDays_loop svc daysToAdd currentDate daysAdded =
    (if of_int daysAdded < daysToAdd
     then addWorkingDays_loop svc daysToAdd
            (skipToWorkingDay svc (plusDays currentDate 1)) (daysAdded + 1)
     else currentDate)"
  by pat_completeness auto

termination addWorkingDays_loop
  by (relation "measure (\<lambda>(svc, daysToAdd, c, daysAdded). nat \<lceil>daysToAdd - of_int daysAdded\<rceil>)")
     (simp_all, linarith)

declare addWorkingDays_loop.simps [simp del]

definition addWorkingDays :: "HolidayService \<Rightarrow> DateTime \<Rightarrow> rat \<Rightarrow> DateTime" where
  "addWorkingDays svc startDate daysToAdd = addWorkingDays_loop svc daysToAdd startDate 0"

text \<open>\<open>getNextWorkingDayStart\<close>: the next day at the start of business, and its loop.\<close>

definition nextDayStart :: "DateTime \<Rightarrow> DateTime" where
  "nextDayStart d =
    setTime (plusDays d 1) (startHour BusinessHoursConfig) (startMinute BusinessHoursConfig)"

function skipToWorkingDayStart :: "HolidayService \<Rightarrow> DateTime \<Rightarrow> DateTime" where
  "skipToWorkingDayStart svc nextDay =
    (if \<not> isWorkingDay svc (toJSDate nextDay)
     then skipToWorkingDayStart svc (nextDayStart nextDay)
     else nextDay)"
  by pat_completeness auto

lemma Day_nextDayStart: "Day (localMillis (nextDayStart c)) = Day (localMillis c) + 1"
  by (simp add: nextDayStart_def BusinessHoursConfig_def Day_setTime Day_plusDays)

termination skipToWorkingDayStart
  by (relation "measure (\<lambda>(svc, c). forwardMeasure svc c)")
     (simp_all add: forwardMeasure_decreases Day_nextDayStart)

declare skipToWorkingDayStart.simps [simp del]

definition getNextWorkingDayStart :: "HolidayService \<Rightarrow> DateTime \<Rightarrow> DateTime" where
  "getNextWorkingDayStart svc d = skipToWorkingDayStart svc (nextDayStart d)"

text \<open>\<open>calculateRemainingBusinessHours\<close>, in hours.\<close>

definition calculateRemainingBusinessHours :: "DateTime \<Rightarrow> rat" where
  "calculateRemainingBusinessHours d =
    (let cfg = BusinessHoursConfig in
     if \<not> isWithinBusinessHours d then 0
     else
       let endOfDay = setTime d (endHour cfg) (endMinute cfg);
           remainingMillis = diffMillis endOfDay d;
           remainingMillis' =
             (if hour d < lunchEndHour cfg then
                let lunchStart = setTime d (lunchStartHour cfg) (lunchStartMinute cfg);
                    lunchEnd = setTime d (lunchEndHour cfg) (lunchEndMinute cfg)
                in if localMillis d < localMillis lunchStart
                   then remainingMillis - diffMillis lunchEnd lunchStart
                   else if localMillis d \<ge> localMillis lunchStart \<and>
                           localMillis d < localMillis lunchEnd
                   then remainingMillis - diffMillis lunchEnd d
                   else remainingMillis
              else remainingMillis)
       in max 0 (of_int remainingMillis' / (1000 * 60 * 60)))"

text \<open>\<open>addHoursSkippingLunch\<close> and its loop.\<close>

function addHoursSkippingLunch_loop :: "rat \<Rightarrow> DateTime \<Rightarrow> rat \<Rightarrow> DateTime" where
  "addHoursSkippingLunch_loop hoursToAdd result hoursAdded =
    (if hoursAdded < hoursToAdd then
       let cfg = BusinessHoursConfig;
           h = hour result;
           m = minute result;
           isBeforeLunch = (h < lunchStartHour cfg \<or>
                            (h = lunchStartHour cfg \<and> m < lunchStartMinute cfg));
           isAfterLunch = (h \<ge> lunchEndHour cfg \<or>
                           (h = lunchEndHour cfg \<and> m \<ge> lunchEndMinute cfg))
       in if isBeforeLunch then
            let lunchStart = setTime result (lunchStartHour cfg) (lunchStartMinute cfg);
                hoursUntilLunch = of_int (diffMillis lunchStart result) / of_int msPerHour;
                hoursToAddBeforeLunch = min (hoursToAdd - hoursAdded) hoursUntilLunch;
                result1 = (if hoursToAddBeforeLunch > 0
                           then plusHours result hoursToAddBeforeLunch else result);
                hoursAdded1 = (if hoursToAddBeforeLunch > 0
                               then hoursAdded + hoursToAddBeforeLunch else hoursAdded);
                result2 = (if hoursAdded1 < hoursToAdd
                           then setTime result1 (lunchEndHour cfg) (lunchEndMinute cfg)
                           else result1)
            in addHoursSkippingLunch_loop hoursToAdd result2 hoursAdded1
          else if \<not> isAfterLunch then
            addHoursSkippingLunch_loop hoursToAdd
              (setTime result (lunchEndHour cfg) (lunchEndMinute cfg)) hoursAdded
          else
            addHoursSkippingLunch_loop hoursToAdd
              (plusHours result (hoursToAdd - hoursAdded)) hoursToAdd
     else result)"
  by pat_completeness auto

definition lunchPhase :: "DateTime \<Rightarrow> nat" where
  "lunchPhase c = (if 13 \<le> hour c then 1 else if hour c < 12 then 3 else 2)"

termination addHoursSkippingLunch_loop
proof (relation "measure (\<lambda>(hoursToAdd, result, hoursAdded).
    if hoursAdded < hoursToAdd then lunchPhase result else 0)", goal_cases)
  case 1
  show ?case by simp
next
  case (2 hoursToAdd result hoursAdded cfg h m isBeforeLunch isAfterLunch lunchStart
      hoursUntilLunch hoursToAddBeforeLunch result1 hoursAdded1 result2)
  have b: "hour result < 12"
    using 2 minute_nonneg [of result] by (auto simp: BusinessHoursConfig_def)
  have "hoursAdded1 < hoursToAdd \<Longrightarrow> hour result2 = 13"
    using 2 by (simp add: BusinessHoursConfig_def hour_setTime)
  then show ?case using b 2(1) by (auto simp: lunchPhase_def)
next
  case (3 hoursToAdd result hoursAdded cfg h m isBeforeLunch isAfterLunch)
  have "hour (setTime result (lunchEndHour cfg) (lunchEndMinute cfg)) = 13"
    using 3 by (simp add: BusinessHoursConfig_def hour_setTime)
  moreover have "hour result = 12"
    using 3 minute_nonneg [of result] by (auto simp: BusinessHoursConfig_def)
  ultimately show ?case using 3(1) by (simp add: lunchPhase_def)
next
  case (4 hoursToAdd result hoursAdded cfg h m isBeforeLunch isAfterLunch)
  then show ?case by (auto simp: lunchPhase_def)
qed

declare addHoursSkippingLunch_loop.simps [simp del]

definition addHoursSkippingLunch :: "DateTime \<Rightarrow> rat \<Rightarrow> DateTime" where
  "addHoursSkippingLunch d hoursToAdd = addHoursSkippingLunch_loop hoursToAdd d 0"

text \<open>A reading at the start of business to the millisecond: 08:00:00.000.\<close>

definition atStart :: "DateTime \<Rightarrow> bool" where
  "atStart c = (c = setTime c 8 0)"

lemma atStart_setTime: "atStart (setTime c 8 0)"
proof -
  have "Day (localMillis (setTime c 8 0)) = Day (localMillis c)" by (simp add: Day_setTime)
  then show ?thesis by (simp add: atStart_def setTime_def)
qed

lemma atStart_nextDayStart: "atStart (nextDayStart c)"
  by (simp add: nextDayStart_def BusinessHoursConfig_def atStart_setTime)

lemma skipToWorkingDayStart_done:
  "isWorkingDay svc (toJSDate c) \<Longrightarrow> skipToWorkingDayStart svc c = c"
  by (subst skipToWorkingDayStart.simps) simp

lemma skipToWorkingDayStart_step:
  "\<not> isWorkingDay svc (toJSDate c) \<Longrightarrow>
    skipToWorkingDayStart svc c = skipToWorkingDayStart svc (nextDayStart c)"
  by (subst skipToWorkingDayStart.simps) simp

lemma atStart_skipToWorkingDayStart: "atStart c \<Longrightarrow> atStart (skipToWorkingDayStart svc c)"
proof (induction svc c rule: skipToWorkingDayStart.induct)
  case (1 svc c)
  show ?case
  proof (cases "isWorkingDay svc (toJSDate c)")
    case True
    with 1 show ?thesis by (simp add: skipToWorkingDayStart_done)
  next
    case False
    with 1 atStart_nextDayStart [of c] show ?thesis by (simp add: skipToWorkingDayStart_step)
  qed
qed

lemma atStart_getNextWorkingDayStart: "atStart (getNextWorkingDayStart svc c)"
  by (simp add: getNextWorkingDayStart_def atStart_skipToWorkingDayStart atStart_nextDayStart)

lemma localMillis_setTime:
  "localMillis (setTime c h m) = Day (localMillis c) * msPerDay + h * msPerHour + m * msPerMinute"
  by (simp add: setTime_def)

lemma diffMillis_setTime:
  "diffMillis (setTime c h m) (setTime c h' m') = (h - h') * msPerHour + (m - m') * msPerMinute"
  by (simp add: diffMillis_def setTime_def algebra_simps)

lemma remaining_atStart:
  assumes "atStart c"
  shows "calculateRemainingBusinessHours c = 8"
proof -
  have c: "c = setTime c 8 0" using assms by (simp add: atStart_def)
  have h: "hour c = 8" by (subst c) (simp add: hour_setTime)
  have m: "minute c = 0" by (subst c) (simp add: minute_setTime)
  have w: "isWithinBusinessHours c" by (simp add: isWithinBusinessHours_def BusinessHoursConfig_def h m)
  have d1: "diffMillis (setTime c 17 0) c = 9 * msPerHour"
    using diffMillis_setTime [of c 17 0 8 0] c by simp
  have lt: "localMillis c < localMillis (setTime c 12 0)"
    by (subst c) (simp add: localMillis_setTime Day_setTime msPerHour_def)
  have d2: "diffMillis (setTime c 13 0) (setTime c 12 0) = msPerHour"
    using diffMillis_setTime [of c 13 0 12 0] by simp
  show ?thesis
    by (simp add: calculateRemainingBusinessHours_def BusinessHoursConfig_def w h d1 lt d2 Let_def msPerHour_def)
qed

text \<open>\<open>addWorkingHours\<close>: the shortcut for one hour when no business time is left today, then
  the loop.\<close>

function addWorkingHours_loop :: "HolidayService \<Rightarrow> rat \<Rightarrow> DateTime \<Rightarrow> rat \<Rightarrow> DateTime" where
  "addWorkingHours_loop svc hoursToAdd currentDate hoursAdded =
    (if hoursAdded < hoursToAdd then
       let remainingHours = calculateRemainingBusinessHours currentDate;
           hoursToAddNow = min (hoursToAdd - hoursAdded) remainingHours;
           currentDate1 = (if remainingHours > 0
                           then addHoursSkippingLunch currentDate hoursToAddNow
                           else currentDate);
           hoursAdded1 = (if remainingHours > 0 then hoursAdded + hoursToAddNow else hoursAdded);
           currentDate2 = (if hoursAdded1 < hoursToAdd
                           then getNextWorkingDayStart svc currentDate1
                           else currentDate1)
       in addWorkingHours_loop svc hoursToAdd currentDate2 hoursAdded1
     else currentDate)"
  by pat_completeness auto

lemma remaining_nonneg: "0 \<le> calculateRemainingBusinessHours c"
  by (simp add: calculateRemainingBusinessHours_def Let_def)

lemma ceiling_eighth_step: "nat \<lceil>(x - 8) / 8\<rceil> < nat \<lceil>x / 8\<rceil>" if "0 < x - 8" for x :: rat
proof -
  have e: "(x - 8) / 8 = x / 8 - 1" by simp
  have "\<lceil>(x - 8) / 8\<rceil> = \<lceil>x / 8 - 1\<rceil>" by (simp only: e)
  also have "\<dots> = \<lceil>x / 8\<rceil> - 1" by (rule ceiling_diff_one)
  finally have "\<lceil>(x - 8) / 8\<rceil> = \<lceil>x / 8\<rceil> - 1" .
  moreover have "0 < \<lceil>(x - 8) / 8\<rceil>" using that by simp
  ultimately show ?thesis by linarith
qed

lemma ceiling_eighth_mono: "nat \<lceil>(x - r) / 8\<rceil> \<le> nat \<lceil>x / 8\<rceil>" if "0 \<le> r" for x r :: rat
proof -
  have "(x - r) / 8 \<le> x / 8" using that by simp
  then have "\<lceil>(x - r) / 8\<rceil> \<le> \<lceil>x / 8\<rceil>" by (rule ceiling_mono)
  then show ?thesis by simp
qed

termination addWorkingHours_loop
proof (relation "measure (\<lambda>(svc, hoursToAdd, c, hoursAdded).
    if hoursAdded < hoursToAdd
    then 2 * nat \<lceil>(hoursToAdd - hoursAdded) / 8\<rceil> + (if atStart c then 0 else 1)
    else 0)", goal_cases)
  case 1
  show ?case by simp
next
  case (2 svc hoursToAdd currentDate hoursAdded remainingHours hoursToAddNow currentDate1
      hoursAdded1 currentDate2)
  have pos: "0 < nat \<lceil>(hoursToAdd - hoursAdded) / 8\<rceil>" using 2(1) by simp
  show ?case
  proof (cases "hoursAdded1 < hoursToAdd")
    case False
    then show ?thesis using 2(1) pos by simp
  next
    case True
    have s: "atStart currentDate2" using True 2 by (simp add: atStart_getNextWorkingDayStart)
    show ?thesis
    proof (cases "remainingHours > 0")
      case r: True
      have now: "hoursToAddNow = remainingHours"
        using True 2 r by (auto simp: min_def split: if_splits)
      have a1: "hoursAdded1 = hoursAdded + remainingHours" using 2 r now by simp
      show ?thesis
      proof (cases "atStart currentDate")
        case st: True
        have "remainingHours = 8" using 2 st by (simp add: remaining_atStart)
        with a1 have e: "hoursToAdd - hoursAdded1 = (hoursToAdd - hoursAdded) - 8" by simp
        have "0 < hoursToAdd - hoursAdded - 8" using True e by simp
        then have "nat \<lceil>(hoursToAdd - hoursAdded - 8) / 8\<rceil> < nat \<lceil>(hoursToAdd - hoursAdded) / 8\<rceil>"
          by (rule ceiling_eighth_step)
        then have "nat \<lceil>(hoursToAdd - hoursAdded1) / 8\<rceil> < nat \<lceil>(hoursToAdd - hoursAdded) / 8\<rceil>"
          by (simp only: e)
        then show ?thesis using True 2(1) s st by simp
      next
        case nst: False
        have e: "hoursToAdd - hoursAdded1 = (hoursToAdd - hoursAdded) - remainingHours" using a1 by simp
        have "nat \<lceil>(hoursToAdd - hoursAdded - remainingHours) / 8\<rceil> \<le> nat \<lceil>(hoursToAdd - hoursAdded) / 8\<rceil>"
          using r by (intro ceiling_eighth_mono) simp
        then have "nat \<lceil>(hoursToAdd - hoursAdded1) / 8\<rceil> \<le> nat \<lceil>(hoursToAdd - hoursAdded) / 8\<rceil>"
          by (simp only: e)
        then show ?thesis using True 2(1) s nst by simp
      qed
    next
      case r: False
      have a1: "hoursAdded1 = hoursAdded" using 2 r by simp
      have "\<not> atStart currentDate" using r 2 remaining_atStart [of currentDate] by auto
      then show ?thesis using True 2(1) s a1 by simp
    qed
  qed
qed

declare addWorkingHours_loop.simps [simp del]

definition addWorkingHours :: "HolidayService \<Rightarrow> DateTime \<Rightarrow> rat \<Rightarrow> DateTime" where
  "addWorkingHours svc startDate hoursToAdd =
    (let remainingHours = calculateRemainingBusinessHours startDate in
     if remainingHours = 0 \<and> hoursToAdd = 1 then getNextWorkingDayStart svc startDate
     else addWorkingHours_loop svc hoursToAdd startDate 0)"

text \<open>\<open>calculateWorkingDateTime\<close>. An absent \<open>days\<close> or \<open>hours\<close> is 0, an absent \<open>startDate\<close>
  is the current instant \<open>now\<close>.\<close>

definition calculateWorkingDateTime ::
    "HolidayService \<Rightarrow> Date \<Rightarrow> rat option \<Rightarrow> rat option \<Rightarrow> Date option \<Rightarrow> Date" where
  "calculateWorkingDateTime svc now days hours startDate =
    (let days = (case days of None \<Rightarrow> 0 | Some n \<Rightarrow> n);
         hours = (case hours of None \<Rightarrow> 0 | Some n \<Rightarrow> n);
         currentDate = (case startDate of Some d \<Rightarrow> d | None \<Rightarrow> now);
         currentColombiaTime = utcToColombiaTime currentDate;
         adjust = (\<not> isWorkingDay svc currentDate \<or> \<not> isWithinBusinessHours currentColombiaTime);
         currentDate1 = (if adjust then adjustToPreviousWorkingTime svc currentDate else currentDate);
         currentColombiaTime1 = (if adjust then utcToColombiaTime currentDate1 else currentColombiaTime);
         currentColombiaTime2 = (if days > 0 then addWorkingDays svc currentColombiaTime1 days
                                 else currentColombiaTime1);
         currentColombiaTime3 = (if hours > 0 then addWorkingHours svc currentColombiaTime2 hours
                                 else currentColombiaTime2)
     in colombiaTimeToUtc currentColombiaTime3)"

section \<open>Business hours\<close>

lemma hour_range: "0 \<le> hour c \<and> hour c < 24"
  by (simp add: hour_def)

lemma minute_range: "0 \<le> minute c \<and> minute c < 60"
  by (simp add: minute_def)

text \<open>
  C4. A local reading is within business hours exactly when its time of day, in minutes since
  midnight, lies in the closed interval from 08:00 to 17:00 and outside the closed interval from
  12:00 to 13:00. A reading at exactly 12:00 and a reading at exactly 13:00 are both excluded.
  (A reading has an hour and a minute; the predicate does not look at seconds.)
\<close>

theorem isWithinBusinessHours_closed_intervals:
  "(isWithinBusinessHours dt \<longleftrightarrow>
      480 \<le> hour dt * 60 + minute dt \<and> hour dt * 60 + minute dt \<le> 1020 \<and>
      \<not> (720 \<le> hour dt * 60 + minute dt \<and> hour dt * 60 + minute dt \<le> 780)) \<and>
   (hour dt = 12 \<and> minute dt = 0 \<longrightarrow> \<not> isWithinBusinessHours dt) \<and>
   (hour dt = 13 \<and> minute dt = 0 \<longrightarrow> \<not> isWithinBusinessHours dt)"
  using hour_range [of dt] minute_range [of dt]
  by (auto simp: isWithinBusinessHours_def BusinessHoursConfig_def Let_def)

theorem isWithinBusinessHours_closed_intervals_witness:
  "\<not> isWithinBusinessHours (DateTime (12 * msPerHour)) \<and>
   \<not> isWithinBusinessHours (DateTime (13 * msPerHour)) \<and>
   isWithinBusinessHours (DateTime (17 * msPerHour)) \<and>
   isWithinBusinessHours (DateTime (8 * msPerHour)) \<and>
   \<not> isWithinBusinessHours (DateTime (17 * msPerHour + msPerMinute))"
  using isWithinBusinessHours_closed_intervals [of "DateTime (12 * msPerHour)"]
    isWithinBusinessHours_closed_intervals [of "DateTime (13 * msPerHour)"]
    isWithinBusinessHours_closed_intervals [of "DateTime (17 * msPerHour)"]
    isWithinBusinessHours_closed_intervals [of "DateTime (8 * msPerHour)"]
    isWithinBusinessHours_closed_intervals [of "DateTime (17 * msPerHour + msPerMinute)"]
  by (simp add: hour_def minute_def msPerHour_def msPerMinute_def)

section \<open>Conversion between instants and local readings\<close>

text \<open>
  C9. Converting an instant to its Bogota reading and back gives the instant again, to the
  millisecond; the reading in between is five hours behind UTC. The conversion the other way
  round is the identity as well.
\<close>

theorem colombiaTimeToUtc_utcToColombiaTime:
  "colombiaTimeToUtc (utcToColombiaTime x) = x \<and>
   localMillis (utcToColombiaTime x) = x - 5 * msPerHour \<and>
   utcToColombiaTime (colombiaTimeToUtc dt) = dt"
  by (simp add: colombiaTimeToUtc_def utcToColombiaTime_def toJSDate_def fromJSDate_def
      bogotaOffset_def)

theorem colombiaTimeToUtc_utcToColombiaTime_witness:
  "colombiaTimeToUtc (utcToColombiaTime 1735941600000) = 1735941600000 \<and>
   hour (utcToColombiaTime 1735941600000) = 17 \<and>
   minute (utcToColombiaTime 1735941600000) = 0 \<and>
   weekday (utcToColombiaTime 1735941600000) = 5"
  using colombiaTimeToUtc_utcToColombiaTime [of 1735941600000]
  by (simp add: hour_def minute_def weekday_def WeekDay_def Day_def msPerHour_def
      msPerMinute_def msPerDay_def)

section \<open>Working days\<close>

lemma localMillis_utcToColombiaTime: "localMillis (utcToColombiaTime t) = t - 5 * msPerHour"
  by (simp add: utcToColombiaTime_def fromJSDate_def bogotaOffset_def)

lemma hour_late_next_day:
  assumes "19 \<le> hour c"
  shows "Day (toJSDate c) = Day (localMillis c) + 1"
proof -
  define t where "t = localMillis c"
  define q where "q = t div msPerDay"
  define r where "r = t mod msPerDay"
  have e: "t = q * msPerDay + r" unfolding q_def r_def by simp
  have r: "0 \<le> r" "r < msPerDay" unfolding r_def by (simp_all add: msPerDay_def)
  have "t div msPerHour = q * 24 + r div msPerHour"
  proof -
    have "t = r + msPerHour * (q * 24)" by (simp add: e msPerDay_def msPerHour_def)
    then have "t div msPerHour = (r + msPerHour * (q * 24)) div msPerHour" by simp
    also have "\<dots> = q * 24 + r div msPerHour" by (simp add: msPerHour_def)
    finally show ?thesis .
  qed
  moreover have "0 \<le> r div msPerHour"
    using r by (simp add: msPerHour_def pos_imp_zdiv_nonneg_iff)
  moreover have "r div msPerHour < 24"
    using r div_lower [of 3600000 r] by (simp add: msPerHour_def msPerDay_def)
  ultimately have "hour c = r div msPerHour"
    by (simp add: hour_def t_def [symmetric])
  with assms have "19 \<le> r div msPerHour" by simp
  then have lo: "19 * msPerHour \<le> r"
    using div_lower [of 3600000 r] by (simp add: msPerHour_def)
  have "Day ((q + 1) * msPerDay + (r + 5 * msPerHour - msPerDay)) = q + 1"
    using r lo by (intro Day_add) (simp_all add: msPerHour_def msPerDay_def)
  moreover have "(q + 1) * msPerDay + (r + 5 * msPerHour - msPerDay) = t + 5 * msPerHour"
    by (simp add: e algebra_simps)
  ultimately have "Day (t + 5 * msPerHour) = q + 1" by simp
  then show ?thesis by (simp add: toJSDate_eq t_def [symmetric] Day_def [of t] q_def)
qed

lemmas calendar_eval =
  toISODate_def isoDate_def civilFromDay_def YearFromDay_def DayFromYear_def MonthFromDay_def
  monthStart_def InLeapYear_def yearString_def padStart_def digit_def Day_def msPerDay_def
  msPerHour_def msPerMinute_def showNat_small showNat_large

lemmas clock_eval =
  hour_def minute_def weekday_def WeekDay_def utcToColombiaTime_def fromJSDate_def
  colombiaTimeToUtc_def toJSDate_def bogotaOffset_def

text \<open>
  C10. \<open>isWorkingDay\<close> takes the weekday from the Bogota reading of the instant and the holiday
  from the instant's UTC date string. From 19:00 local time on, the UTC date is the day after
  the local civil date, so the holiday test is decided by the following civil date.
\<close>

theorem isWorkingDay_weekday_local_holiday_utc:
  "(isWorkingDay svc t \<longleftrightarrow>
      weekday (utcToColombiaTime t) \<noteq> 6 \<and> weekday (utcToColombiaTime t) \<noteq> 7 \<and>
      toISODate t \<notin> set (fst (fetchAllHolidays svc))) \<and>
   (19 \<le> hour (utcToColombiaTime t) \<longrightarrow>
      toISODate t = isoDate (civilFromDay (Day (localMillis (utcToColombiaTime t)) + 1)))"
proof
  show "isWorkingDay svc t \<longleftrightarrow>
      weekday (utcToColombiaTime t) \<noteq> 6 \<and> weekday (utcToColombiaTime t) \<noteq> 7 \<and>
      toISODate t \<notin> set (fst (fetchAllHolidays svc))"
    by (auto simp: isWorkingDay_def isHoliday_def Let_def split: prod.splits)
next
  show "19 \<le> hour (utcToColombiaTime t) \<longrightarrow>
      toISODate t = isoDate (civilFromDay (Day (localMillis (utcToColombiaTime t)) + 1))"
  proof
    assume "19 \<le> hour (utcToColombiaTime t)"
    then have "Day (toJSDate (utcToColombiaTime t)) = Day (localMillis (utcToColombiaTime t)) + 1"
      by (rule hour_late_next_day)
    moreover have "toJSDate (utcToColombiaTime t) = t"
      by (simp add: toJSDate_def utcToColombiaTime_def fromJSDate_def)
    ultimately show "toISODate t = isoDate (civilFromDay (Day (localMillis (utcToColombiaTime t)) + 1))"
      by (simp add: toISODate_def)
  qed
qed

text \<open>Monday 2025-01-06 at 20:00 in Bogota is 2025-01-07T01:00Z: with Tuesday the 7th in the
  provider's list, the Monday evening is not a working day.\<close>

theorem isWorkingDay_weekday_local_holiday_utc_witness:
  "\<not> isWorkingDay \<lparr> allHolidaysCache = None, provider = Some [''2025-01-07''] \<rparr> 1736211600000 \<and>
   hour (utcToColombiaTime 1736211600000) = 20 \<and>
   weekday (utcToColombiaTime 1736211600000) = 1 \<and>
   toISODate 1736211600000 = ''2025-01-07'' \<and>
   isoDate (civilFromDay (Day (localMillis (utcToColombiaTime 1736211600000)))) = ''2025-01-06''"
  using isWorkingDay_weekday_local_holiday_utc
    [of "\<lparr> allHolidaysCache = None, provider = Some [''2025-01-07''] \<rparr>" 1736211600000]
  by (simp add: fetchAllHolidays_def calendar_eval clock_eval)

section \<open>The day loops\<close>

text \<open>The readings at the start (08:00) and at the end (17:00) of business on day \<open>k\<close>.\<close>

definition dayStart :: "int \<Rightarrow> DateTime" where
  "dayStart k = DateTime (k * msPerDay + 8 * msPerHour)"

definition dayEnd :: "int \<Rightarrow> DateTime" where
  "dayEnd k = DateTime (k * msPerDay + 17 * msPerHour)"

text \<open>Day \<open>k\<close> as \<open>isWorkingDay\<close> judges it during business hours, when the UTC date is the
  local date.\<close>

definition workingDate :: "HolidayService \<Rightarrow> int \<Rightarrow> bool" where
  "workingDate svc k = isWorkingDay svc (toJSDate (dayStart k))"

lemma Day_dayStart: "Day (localMillis (dayStart k)) = k"
  unfolding dayStart_def DateTime.sel by (rule Day_add) (simp_all add: msPerHour_def msPerDay_def)

lemma Day_dayEnd: "Day (localMillis (dayEnd k)) = k"
  unfolding dayEnd_def DateTime.sel by (rule Day_add) (simp_all add: msPerHour_def msPerDay_def)

lemma Day_toJSDate_dayStart: "Day (toJSDate (dayStart k)) = k"
proof -
  have "Day (k * msPerDay + (8 * msPerHour + 5 * msPerHour)) = k"
    by (rule Day_add) (simp_all add: msPerHour_def msPerDay_def)
  then show ?thesis by (simp add: toJSDate_eq dayStart_def add.assoc)
qed

lemma Day_toJSDate_dayEnd: "Day (toJSDate (dayEnd k)) = k"
proof -
  have "Day (k * msPerDay + (17 * msPerHour + 5 * msPerHour)) = k"
    by (rule Day_add) (simp_all add: msPerHour_def msPerDay_def)
  then show ?thesis by (simp add: toJSDate_eq dayEnd_def add.assoc)
qed

lemma weekday_dayStart: "weekday (dayStart k) = (k + 3) mod 7 + 1"
  by (simp add: weekday_of_Day Day_dayStart)

lemma weekday_dayEnd: "weekday (dayEnd k) = (k + 3) mod 7 + 1"
  by (simp add: weekday_of_Day Day_dayEnd)

lemma workingDate_iff:
  "workingDate svc k \<longleftrightarrow> (k + 3) mod 7 + 1 \<noteq> 6 \<and> (k + 3) mod 7 + 1 \<noteq> 7 \<and> k \<notin> holidayDays svc"
  by (simp add: workingDate_def isWorkingDay_iff weekday_dayStart Day_toJSDate_dayStart)

lemma isWorkingDay_dayEnd: "isWorkingDay svc (toJSDate (dayEnd k)) = workingDate svc k"
  by (simp add: workingDate_iff isWorkingDay_iff weekday_dayEnd Day_toJSDate_dayEnd)

lemma setTime_eq_dayStart: "setTime c 8 0 = dayStart (Day (localMillis c))"
  by (simp add: setTime_def dayStart_def)

lemma setTime_eq_dayEnd: "setTime c 17 0 = dayEnd (Day (localMillis c))"
  by (simp add: setTime_def dayEnd_def)

lemma nextDayStart_eq: "nextDayStart c = dayStart (Day (localMillis c) + 1)"
  by (simp add: nextDayStart_def BusinessHoursConfig_def setTime_eq_dayStart Day_plusDays)

lemma previousDayEnd_eq: "previousDayEnd c = dayEnd (Day (localMillis c) - 1)"
  using Day_minus [of "localMillis c" 1]
  by (simp add: previousDayEnd_def BusinessHoursConfig_def setTime_eq_dayEnd minusDays_def)

lemma hour_dayStart: "hour (dayStart k) = 8"
  using hour_setTime [of 8 0 "dayStart k"] by (simp add: setTime_eq_dayStart Day_dayStart)

lemma minute_dayStart: "minute (dayStart k) = 0"
  using minute_setTime [of 8 0 "dayStart k"] by (simp add: setTime_eq_dayStart Day_dayStart)

lemma hour_dayEnd: "hour (dayEnd k) = 17"
  using hour_setTime [of 17 0 "dayEnd k"] by (simp add: setTime_eq_dayEnd Day_dayEnd)

lemma minute_dayEnd: "minute (dayEnd k) = 0"
  using minute_setTime [of 17 0 "dayEnd k"] by (simp add: setTime_eq_dayEnd Day_dayEnd)

text \<open>The forward loop stops at the first working day from where it starts.\<close>

lemma skipToWorkingDayStart_first:
  "\<exists>n. skipToWorkingDayStart svc (dayStart k) = dayStart n \<and> k \<le> n \<and> workingDate svc n \<and>
       (\<forall>j. k \<le> j \<and> j < n \<longrightarrow> \<not> workingDate svc j)"
proof (induction svc "dayStart k" arbitrary: k rule: skipToWorkingDayStart.induct)
  case (1 svc)
  show ?case
  proof (cases "workingDate svc k")
    case True
    then have "skipToWorkingDayStart svc (dayStart k) = dayStart k"
      by (simp add: skipToWorkingDayStart_done workingDate_def)
    with True show ?thesis by auto
  next
    case False
    then have nw: "\<not> isWorkingDay svc (toJSDate (dayStart k))" by (simp add: workingDate_def)
    have nx: "nextDayStart (dayStart k) = dayStart (k + 1)" by (simp add: nextDayStart_eq Day_dayStart)
    obtain n where n: "skipToWorkingDayStart svc (dayStart (k + 1)) = dayStart n" "k + 1 \<le> n"
        "workingDate svc n" "\<forall>j. k + 1 \<le> j \<and> j < n \<longrightarrow> \<not> workingDate svc j"
      using 1 [OF nw nx] by blast
    have "skipToWorkingDayStart svc (dayStart k) = dayStart n"
      using nw nx n(1) by (simp add: skipToWorkingDayStart_step)
    moreover have "\<forall>j. k \<le> j \<and> j < n \<longrightarrow> \<not> workingDate svc j"
    proof (intro allI impI)
      fix j assume "k \<le> j \<and> j < n"
      then show "\<not> workingDate svc j" using False n(4) by (cases "j = k") auto
    qed
    ultimately show ?thesis using n by auto
  qed
qed

text \<open>The backward loop stops at the last working day up to where it starts.\<close>

lemma adjustToWorkingDay_last:
  "\<exists>n. adjustToWorkingDay svc (dayEnd k) = dayEnd n \<and> n \<le> k \<and> workingDate svc n \<and>
       (\<forall>j. n < j \<and> j \<le> k \<longrightarrow> \<not> workingDate svc j)"
proof (induction svc "dayEnd k" arbitrary: k rule: adjustToWorkingDay.induct)
  case (1 svc)
  show ?case
  proof (cases "workingDate svc k")
    case True
    then have "adjustToWorkingDay svc (dayEnd k) = dayEnd k"
      by (simp add: adjustToWorkingDay_done isWorkingDay_dayEnd)
    with True show ?thesis by auto
  next
    case False
    then have nw: "\<not> isWorkingDay svc (toJSDate (dayEnd k))" by (simp add: isWorkingDay_dayEnd)
    have nx: "previousDayEnd (dayEnd k) = dayEnd (k - 1)" by (simp add: previousDayEnd_eq Day_dayEnd)
    obtain n where n: "adjustToWorkingDay svc (dayEnd (k - 1)) = dayEnd n" "n \<le> k - 1"
        "workingDate svc n" "\<forall>j. n < j \<and> j \<le> k - 1 \<longrightarrow> \<not> workingDate svc j"
      using 1 [OF nw nx] by blast
    have "adjustToWorkingDay svc (dayEnd k) = dayEnd n"
      using nw nx n(1) by (simp add: adjustToWorkingDay_step)
    moreover have "\<forall>j. n < j \<and> j \<le> k \<longrightarrow> \<not> workingDate svc j"
    proof (intro allI impI)
      fix j assume "n < j \<and> j \<le> k"
      then show "\<not> workingDate svc j" using False n(4) by (cases "j = k") auto
    qed
    ultimately show ?thesis using n by auto
  qed
qed

lemma clock_decompose:
  "localMillis c = Day (localMillis c) * msPerDay + hour c * msPerHour + minute c * msPerMinute
     + localMillis c mod msPerMinute"
proof -
  define t where "t = localMillis c"
  have a: "t = msPerMinute * (t div msPerMinute) + t mod msPerMinute" by simp
  have b: "t div msPerMinute = 60 * (t div msPerMinute div 60) + (t div msPerMinute) mod 60" by simp
  have c: "t div msPerMinute div 60 = t div msPerHour"
    using zdiv_zmult2_eq [of 60 t 60000] by (simp add: msPerMinute_def msPerHour_def)
  have d: "t div msPerHour = 24 * (t div msPerHour div 24) + (t div msPerHour) mod 24" by simp
  have e: "t div msPerHour div 24 = t div msPerDay"
    using zdiv_zmult2_eq [of 24 t 3600000] by (simp add: msPerDay_def msPerHour_def)
  define M where "M = (t div msPerMinute) mod 60"
  define H where "H = (t div msPerHour) mod 24"
  define D where "D = t div msPerDay"
  define s where "s = t mod msPerMinute"
  define q where "q = t div msPerMinute"
  define p where "p = t div msPerHour"
  have "t = msPerMinute * q + s" using a by (simp add: q_def s_def)
  moreover have "q = 60 * p + M" using b c by (simp add: q_def p_def M_def)
  moreover have "p = 24 * D + H" using d e by (simp add: p_def D_def H_def)
  ultimately have "t = D * msPerDay + H * msPerHour + M * msPerMinute + s"
    by (simp add: msPerDay_def msPerHour_def msPerMinute_def)
  then show ?thesis
    by (simp add: t_def hour_def minute_def Day_def D_def H_def M_def s_def)
qed

lemma diffMillis_setTime_self:
  "diffMillis (setTime c h m) c =
    (h - hour c) * msPerHour + (m - minute c) * msPerMinute - localMillis c mod msPerMinute"
proof -
  have "localMillis (setTime c h m) = Day (localMillis c) * msPerDay + h * msPerHour + m * msPerMinute"
    by (rule localMillis_setTime)
  moreover note clock_decompose [of c]
  ultimately show ?thesis by (simp add: diffMillis_def algebra_simps)
qed

lemma sub_minute_range: "0 \<le> localMillis c mod msPerMinute \<and> localMillis c mod msPerMinute < 60000"
  by (simp add: msPerMinute_def)

lemma max_zero_rat: "max 0 (of_int x / (1000 * 60 * 60) :: rat) = 0 \<longleftrightarrow> x \<le> 0"
  by (auto simp: max_def zero_le_divide_iff divide_le_0_iff)

text \<open>No business time is left today exactly outside business hours and at the end of business.\<close>

lemma remaining_zero_iff:
  "calculateRemainingBusinessHours c = 0 \<longleftrightarrow>
     \<not> isWithinBusinessHours c \<or> (hour c = 17 \<and> minute c = 0)"
proof (cases "isWithinBusinessHours c")
  case False
  then show ?thesis by (simp add: calculateRemainingBusinessHours_def Let_def)
next
  case True
  define s where "s = localMillis c mod msPerMinute"
  have s: "0 \<le> s" "s < 60000" using sub_minute_range [of c] by (simp_all add: s_def)
  have hm: "0 \<le> minute c" "minute c < 60" using minute_range [of c] by simp_all
  have w: "8 \<le> hour c" "hour c \<le> 17" "hour c = 17 \<longrightarrow> minute c = 0" "hour c \<noteq> 12"
      "hour c = 13 \<longrightarrow> 0 < minute c"
    using True hm by (auto simp: isWithinBusinessHours_def BusinessHoursConfig_def Let_def split: if_splits)
  have e17: "diffMillis (setTime c 17 0) c = (17 - hour c) * 3600000 - minute c * 60000 - s"
    by (simp add: diffMillis_setTime_self s_def msPerHour_def msPerMinute_def)
  have e12: "localMillis (setTime c 12 0) - localMillis c = (12 - hour c) * 3600000 - minute c * 60000 - s"
    using diffMillis_setTime_self [of c 12 0]
    by (simp add: diffMillis_def s_def msPerHour_def msPerMinute_def)
  have e13: "diffMillis (setTime c 13 0) (setTime c 12 0) = 3600000"
    by (simp add: diffMillis_setTime msPerHour_def)
  show ?thesis
  proof (cases "hour c < 13")
    case h: True
    with w have h11: "hour c \<le> 11" by simp
    then have "3600000 \<le> (12 - hour c) * 3600000" by simp
    with hm s e12 have lt: "localMillis c < localMillis (setTime c 12 0)" by linarith
    have "7200000 \<le> (17 - hour c) * 3600000" using h11 by simp
    with hm s have pos: "\<not> (17 - hour c) * 3600000 - minute c * 60000 - s - 3600000 \<le> 0" by linarith
    have "calculateRemainingBusinessHours c =
        max 0 (of_int ((17 - hour c) * 3600000 - minute c * 60000 - s - 3600000) / (1000 * 60 * 60))"
      using True h lt
      by (simp add: calculateRemainingBusinessHours_def BusinessHoursConfig_def Let_def e17 e13)
    then have "calculateRemainingBusinessHours c \<noteq> 0" using pos by (simp only: max_zero_rat) simp
    with True h show ?thesis by simp
  next
    case h: False
    have r: "calculateRemainingBusinessHours c =
        max 0 (of_int ((17 - hour c) * 3600000 - minute c * 60000 - s) / (1000 * 60 * 60))"
      using True h
      by (simp add: calculateRemainingBusinessHours_def BusinessHoursConfig_def Let_def e17)
    show ?thesis
    proof (cases "hour c = 17")
      case True
      with w s have "(17 - hour c) * 3600000 - minute c * 60000 - s \<le> 0" by simp
      then have "calculateRemainingBusinessHours c = 0" unfolding r by (simp only: max_zero_rat)
      with True w show ?thesis by simp
    next
      case False
      with w have "hour c \<le> 16" by simp
      then have "3600000 \<le> (17 - hour c) * 3600000" by simp
      with hm s have "\<not> (17 - hour c) * 3600000 - minute c * 60000 - s \<le> 0" by linarith
      then have "calculateRemainingBusinessHours c \<noteq> 0" unfolding r by (simp only: max_zero_rat) simp
      with False \<open>isWithinBusinessHours c\<close> show ?thesis by simp
    qed
  qed
qed

lemma hour_early_same_day:
  assumes "hour c < 19"
  shows "Day (toJSDate c) = Day (localMillis c)"
proof -
  define s where "s = localMillis c mod msPerMinute"
  have s: "0 \<le> s" "s < 60000" using sub_minute_range [of c] by (simp_all add: s_def)
  have hm: "0 \<le> minute c" "minute c < 60" "0 \<le> hour c" using minute_range [of c] hour_range [of c] by simp_all
  have "Day (Day (localMillis c) * msPerDay + (hour c * msPerHour + minute c * msPerMinute + s + 5 * msPerHour))
      = Day (localMillis c)"
    using assms s hm by (intro Day_add) (simp_all add: msPerHour_def msPerMinute_def msPerDay_def)
  moreover have "Day (localMillis c) * msPerDay + (hour c * msPerHour + minute c * msPerMinute + s + 5 * msPerHour)
      = toJSDate c"
    using clock_decompose [of c] by (simp add: toJSDate_eq s_def)
  ultimately show ?thesis by simp
qed

lemma isWorkingDay_business_day:
  assumes "hour c < 19"
  shows "isWorkingDay svc (toJSDate c) = workingDate svc (Day (localMillis c))"
  by (simp add: isWorkingDay_iff workingDate_iff weekday_of_Day hour_early_same_day [OF assms])

lemma getNextWorkingDayStart_first:
  "\<exists>n. getNextWorkingDayStart svc c = dayStart n \<and> Day (localMillis c) < n \<and> workingDate svc n \<and>
       (\<forall>j. Day (localMillis c) < j \<and> j < n \<longrightarrow> \<not> workingDate svc j)"
proof -
  obtain n where n: "skipToWorkingDayStart svc (dayStart (Day (localMillis c) + 1)) = dayStart n"
      "Day (localMillis c) + 1 \<le> n" "workingDate svc n"
      "\<forall>j. Day (localMillis c) + 1 \<le> j \<and> j < n \<longrightarrow> \<not> workingDate svc j"
    using skipToWorkingDayStart_first [of svc "Day (localMillis c) + 1"] by blast
  have "getNextWorkingDayStart svc c = dayStart n"
    by (simp add: getNextWorkingDayStart_def nextDayStart_eq n(1))
  moreover have "\<forall>j. Day (localMillis c) < j \<and> j < n \<longrightarrow> \<not> workingDate svc j"
    using n(4) by auto
  ultimately show ?thesis using n(2,3) by auto
qed

lemma getNextWorkingDayStart_unique:
  assumes "Day (localMillis c) < n" "workingDate svc n"
    "\<forall>j. Day (localMillis c) < j \<and> j < n \<longrightarrow> \<not> workingDate svc j"
  shows "getNextWorkingDayStart svc c = dayStart n"
proof -
  obtain n' where n': "getNextWorkingDayStart svc c = dayStart n'" "Day (localMillis c) < n'"
      "workingDate svc n'" "\<forall>j. Day (localMillis c) < j \<and> j < n' \<longrightarrow> \<not> workingDate svc j"
    using getNextWorkingDayStart_first [of svc c] by blast
  have "\<not> n' < n" using assms(3) n'(2,3) by auto
  moreover have "\<not> n < n'" using n'(4) assms(1,2) by auto
  ultimately have "n' = n" by simp
  with n'(1) show ?thesis by simp
qed

lemma addWorkingHours_shortcut:
  "calculateRemainingBusinessHours c = 0 \<Longrightarrow> addWorkingHours svc c 1 = getNextWorkingDayStart svc c"
  by (simp add: addWorkingHours_def)

lemma isWithinBusinessHours_dayEnd: "isWithinBusinessHours (dayEnd k)"
  by (simp add: isWithinBusinessHours_def BusinessHoursConfig_def hour_dayEnd minute_dayEnd)

lemma toJSDate_utcToColombiaTime: "toJSDate (utcToColombiaTime t) = t"
  by (simp add: toJSDate_def utcToColombiaTime_def fromJSDate_def)

text \<open>What \<open>calculateWorkingDateTime\<close> starts from: the anchor, or its backward adjustment.\<close>

definition startingPoint :: "HolidayService \<Rightarrow> Date \<Rightarrow> Date" where
  "startingPoint svc anchor =
    (if isWorkingDay svc anchor \<and> isWithinBusinessHours (utcToColombiaTime anchor) then anchor
     else adjustToPreviousWorkingTime svc anchor)"

lemma calculateWorkingDateTime_unfold:
  "calculateWorkingDateTime svc now days hours (Some anchor) =
    (let d = (case days of None \<Rightarrow> 0 | Some n \<Rightarrow> n);
         h = (case hours of None \<Rightarrow> 0 | Some n \<Rightarrow> n);
         c1 = utcToColombiaTime (startingPoint svc anchor);
         c2 = (if d > 0 then addWorkingDays svc c1 d else c1);
         c3 = (if h > 0 then addWorkingHours svc c2 h else c2)
     in colombiaTimeToUtc c3)"
  by (simp add: calculateWorkingDateTime_def startingPoint_def Let_def)

text \<open>From a Friday at 17:00, adjusted or not, the next working day is the Monday, when the
  Monday is not in the provider's list.\<close>

lemma friday_evening_start:
  assumes c: "weekday c = 5" "hour c = 17" "minute c = 0"
  shows "\<exists>k c'. utcToColombiaTime (startingPoint svc (toJSDate c)) = c' \<and>
      Day (localMillis c') = k \<and> k \<le> Day (localMillis c) \<and> hour c' = 17 \<and> minute c' = 0 \<and>
      (\<forall>j. k < j \<and> j \<le> Day (localMillis c) \<longrightarrow> \<not> workingDate svc j)"
proof (cases "isWorkingDay svc (toJSDate c)")
  case True
  have "isWithinBusinessHours c"
    using c by (simp add: isWithinBusinessHours_def BusinessHoursConfig_def)
  with True have "startingPoint svc (toJSDate c) = toJSDate c"
    by (simp add: startingPoint_def utcToColombiaTime_toJSDate)
  then show ?thesis using c by (auto simp: utcToColombiaTime_toJSDate)
next
  case False
  define d where "d = Day (localMillis c)"
  have nd: "\<not> workingDate svc d"
    using False c isWorkingDay_business_day [of c svc] by (simp add: d_def)
  obtain n where n: "adjustToWorkingDay svc (dayEnd (d - 1)) = dayEnd n" "n \<le> d - 1"
      "workingDate svc n" "\<forall>j. n < j \<and> j \<le> d - 1 \<longrightarrow> \<not> workingDate svc j"
    using adjustToWorkingDay_last [of svc "d - 1"] by blast
  have a: "adjustToWorkingDay svc c = dayEnd n"
    using False n(1) by (simp add: adjustToWorkingDay_step previousDayEnd_eq d_def)
  have "adjustToPreviousWorkingTime svc (toJSDate c) = colombiaTimeToUtc (dayEnd n)"
    by (subst adjustToPreviousWorkingTime.simps)
       (simp add: utcToColombiaTime_toJSDate a isWithinBusinessHours_dayEnd Let_def)
  then have "utcToColombiaTime (startingPoint svc (toJSDate c)) = dayEnd n"
    using False by (simp add: startingPoint_def utcToColombiaTime_colombiaTimeToUtc)
  moreover have "\<forall>j. n < j \<and> j \<le> d \<longrightarrow> \<not> workingDate svc j"
  proof (intro allI impI)
    fix j assume "n < j \<and> j \<le> d"
    then show "\<not> workingDate svc j" using nd n(4) by (cases "j = d") auto
  qed
  ultimately show ?thesis using n(2) by (simp add: Day_dayEnd hour_dayEnd minute_dayEnd d_def)
qed

lemma friday_then_monday:
  assumes c: "weekday c = 5"
  shows "\<not> workingDate svc (Day (localMillis c) + 1)" "\<not> workingDate svc (Day (localMillis c) + 2)"
    "(Day (localMillis c) + 3 + 3) mod 7 + 1 = 1"
proof -
  define r where "r = (Day (localMillis c) + 3) mod 7"
  have r: "r = 4" using c by (simp add: weekday_of_Day r_def)
  have "(Day (localMillis c) + 3 + 1) mod 7 = (r + 1) mod 7" by (simp only: r_def mod_add_left_eq)
  moreover have "(Day (localMillis c) + 3 + 2) mod 7 = (r + 2) mod 7" by (simp only: r_def mod_add_left_eq)
  moreover have "(Day (localMillis c) + 3 + 3) mod 7 = (r + 3) mod 7" by (simp only: r_def mod_add_left_eq)
  ultimately have m: "(Day (localMillis c) + 1 + 3) mod 7 = 5" "(Day (localMillis c) + 2 + 3) mod 7 = 6"
      "(Day (localMillis c) + 3 + 3) mod 7 = 0"
    unfolding r by (simp_all add: add.commute add.left_commute)
  from m(1) show "\<not> workingDate svc (Day (localMillis c) + 1)" by (simp add: workingDate_iff)
  from m(2) show "\<not> workingDate svc (Day (localMillis c) + 2)" by (simp add: workingDate_iff)
  from m(3) show "(Day (localMillis c) + 3 + 3) mod 7 + 1 = 1" by simp
qed

section \<open>One working hour when no business time is left today\<close>

text \<open>
  C3. A reading has no business time left today exactly when it is outside business hours or at
  the end of business (17:00). From such a reading, \<open>addWorkingHours\<close> with one hour returns the
  start of business (08:00 local) of the next working day: the first later day that
  \<open>isWorkingDay\<close> accepts. In particular, from an anchor on a Friday at 17:00 local time
  (22:00 UTC), one working hour gives the following Monday at 08:00 local time (13:00 UTC),
  when that Monday is not in the provider's list.
\<close>

theorem addWorkingHours_one_hour_after_hours:
  "(calculateRemainingBusinessHours cur = 0 \<longleftrightarrow>
      \<not> isWithinBusinessHours cur \<or> (hour cur = 17 \<and> minute cur = 0)) \<and>
   (calculateRemainingBusinessHours cur = 0 \<longrightarrow>
      (\<exists>n. addWorkingHours svc cur 1 = dayStart n \<and> Day (localMillis cur) < n \<and>
           hour (dayStart n) = 8 \<and> minute (dayStart n) = 0 \<and>
           isWorkingDay svc (toJSDate (dayStart n)) \<and>
           (\<forall>j. Day (localMillis cur) < j \<and> j < n \<longrightarrow>
                \<not> isWorkingDay svc (toJSDate (dayStart j))))) \<and>
   (weekday (utcToColombiaTime anchor) = 5 \<and> hour (utcToColombiaTime anchor) = 17 \<and>
    minute (utcToColombiaTime anchor) = 0 \<and> (days = None \<or> days = Some 0) \<and>
    toISODate (Day anchor * msPerDay + 3 * msPerDay) \<notin> set (fst (fetchAllHolidays svc)) \<longrightarrow>
      calculateWorkingDateTime svc now days (Some 1) (Some anchor) =
        Day anchor * msPerDay + 3 * msPerDay + 13 * msPerHour)"
proof (intro conjI impI)
  show "calculateRemainingBusinessHours cur = 0 \<longleftrightarrow>
      \<not> isWithinBusinessHours cur \<or> (hour cur = 17 \<and> minute cur = 0)"
    by (rule remaining_zero_iff)
next
  assume z: "calculateRemainingBusinessHours cur = 0"
  obtain n where n: "getNextWorkingDayStart svc cur = dayStart n" "Day (localMillis cur) < n"
      "workingDate svc n" "\<forall>j. Day (localMillis cur) < j \<and> j < n \<longrightarrow> \<not> workingDate svc j"
    using getNextWorkingDayStart_first [of svc cur] by blast
  have "addWorkingHours svc cur 1 = dayStart n" using z n(1) by (simp add: addWorkingHours_shortcut)
  then show "\<exists>n. addWorkingHours svc cur 1 = dayStart n \<and> Day (localMillis cur) < n \<and>
           hour (dayStart n) = 8 \<and> minute (dayStart n) = 0 \<and>
           isWorkingDay svc (toJSDate (dayStart n)) \<and>
           (\<forall>j. Day (localMillis cur) < j \<and> j < n \<longrightarrow>
                \<not> isWorkingDay svc (toJSDate (dayStart j)))"
    using n(2,3,4) by (auto simp: hour_dayStart minute_dayStart workingDate_def)
next
  assume a: "weekday (utcToColombiaTime anchor) = 5 \<and> hour (utcToColombiaTime anchor) = 17 \<and>
    minute (utcToColombiaTime anchor) = 0 \<and> (days = None \<or> days = Some 0) \<and>
    toISODate (Day anchor * msPerDay + 3 * msPerDay) \<notin> set (fst (fetchAllHolidays svc))"
  define c where "c = utcToColombiaTime anchor"
  define d where "d = Day (localMillis c)"
  have anchor: "anchor = toJSDate c" by (simp add: c_def toJSDate_utcToColombiaTime)
  have c: "weekday c = 5" "hour c = 17" "minute c = 0" using a by (simp_all add: c_def)
  have dd: "Day anchor = d" using hour_early_same_day [of c] c by (simp add: anchor d_def)
  have "Day (d * msPerDay + 3 * msPerDay) = d + 3"
    using Day_plus [of "d * msPerDay" 3] Day_add [of 0 d] by (simp add: msPerDay_def)
  then have "d + 3 \<notin> holidayDays svc"
    using a by (simp add: holidayDays_def toISODate_def dd)
  then have mon: "workingDate svc (d + 3)"
    using friday_then_monday(3) [OF c(1)] by (simp add: workingDate_iff d_def)
  obtain k c' where k: "utcToColombiaTime (startingPoint svc (toJSDate c)) = c'"
      "Day (localMillis c') = k" "k \<le> d" "hour c' = 17" "minute c' = 0"
      "\<forall>j. k < j \<and> j \<le> d \<longrightarrow> \<not> workingDate svc j"
    using friday_evening_start [OF c, of svc] unfolding d_def by blast
  have z: "calculateRemainingBusinessHours c' = 0" using k(4,5) by (simp add: remaining_zero_iff)
  have "\<forall>j. Day (localMillis c') < j \<and> j < d + 3 \<longrightarrow> \<not> workingDate svc j"
  proof (intro allI impI)
    fix j assume j: "Day (localMillis c') < j \<and> j < d + 3"
    then have "j \<le> d \<or> j = d + 1 \<or> j = d + 2" by auto
    then show "\<not> workingDate svc j"
      using j k(2,6) friday_then_monday(1,2) [OF c(1), of svc] by (auto simp: d_def)
  qed
  then have "getNextWorkingDayStart svc c' = dayStart (d + 3)"
    using k(2,3) mon by (intro getNextWorkingDayStart_unique) auto
  then have "addWorkingHours svc c' 1 = dayStart (d + 3)" using z by (simp add: addWorkingHours_shortcut)
  moreover have "colombiaTimeToUtc (dayStart (d + 3)) = d * msPerDay + 3 * msPerDay + 13 * msPerHour"
    by (simp add: colombiaTimeToUtc_def toJSDate_eq dayStart_def algebra_simps)
  ultimately show "calculateWorkingDateTime svc now days (Some 1) (Some anchor) =
        Day anchor * msPerDay + 3 * msPerDay + 13 * msPerHour"
    using a k(1) by (auto simp: calculateWorkingDateTime_unfold Let_def anchor [symmetric] dd)
qed

text \<open>Friday 2025-01-03 at 17:00 in Bogota (22:00 UTC), with that Friday itself in the
  provider's list: one working hour ends on Monday 2025-01-06 at 13:00 UTC.\<close>

theorem addWorkingHours_one_hour_after_hours_witness:
  "calculateWorkingDateTime \<lparr> allHolidaysCache = None, provider = Some [''2025-01-03''] \<rparr> 0
      None (Some 1) (Some 1735941600000) = 1736168400000"
proof -
  have h: "weekday (utcToColombiaTime 1735941600000) = 5 \<and>
      hour (utcToColombiaTime 1735941600000) = 17 \<and>
      minute (utcToColombiaTime 1735941600000) = 0"
    by (simp add: clock_eval Day_def msPerDay_def msPerHour_def msPerMinute_def)
  have d: "Day 1735941600000 = 20091" by (simp add: Day_def msPerDay_def)
  have l: "toISODate (Day 1735941600000 * msPerDay + 3 * msPerDay) \<notin>
      set (fst (fetchAllHolidays \<lparr> allHolidaysCache = None, provider = Some [''2025-01-03''] \<rparr>))"
    unfolding d by (simp add: fetchAllHolidays_def calendar_eval)
  show ?thesis
    using addWorkingHours_one_hour_after_hours
      [where anchor = 1735941600000 and days = None and now = 0
         and svc = "\<lparr> allHolidaysCache = None, provider = Some [''2025-01-03''] \<rparr>"]
      h l unfolding d by (simp add: msPerDay_def msPerHour_def)
qed

section \<open>The whole calculation\<close>

text \<open>
  C8. With no days and no hours to add, \<open>calculateWorkingDateTime\<close> returns the anchor unchanged
  when the anchor is on a working day and within business hours, and otherwise returns exactly
  \<open>adjustToPreviousWorkingTime\<close> of the anchor. With both days and hours to add, the days are
  added first and the hours are added to the result of that.
\<close>

theorem calculateWorkingDateTime_identity_and_order:
  "((days = None \<or> days = Some 0) \<and> (hours = None \<or> hours = Some 0) \<longrightarrow>
      calculateWorkingDateTime svc now days hours (Some anchor) =
        (if isWorkingDay svc anchor \<and> isWithinBusinessHours (utcToColombiaTime anchor)
         then anchor else adjustToPreviousWorkingTime svc anchor)) \<and>
   (0 < d \<and> 0 < h \<longrightarrow>
      calculateWorkingDateTime svc now (Some d) (Some h) (Some anchor) =
        colombiaTimeToUtc
          (addWorkingHours svc
            (addWorkingDays svc
              (utcToColombiaTime
                (if isWorkingDay svc anchor \<and> isWithinBusinessHours (utcToColombiaTime anchor)
                 then anchor else adjustToPreviousWorkingTime svc anchor)) d) h))"
proof (intro conjI impI)
  assume "(days = None \<or> days = Some 0) \<and> (hours = None \<or> hours = Some 0)"
  then show "calculateWorkingDateTime svc now days hours (Some anchor) =
        (if isWorkingDay svc anchor \<and> isWithinBusinessHours (utcToColombiaTime anchor)
         then anchor else adjustToPreviousWorkingTime svc anchor)"
    by (auto simp: calculateWorkingDateTime_unfold startingPoint_def Let_def
        colombiaTimeToUtc_def toJSDate_utcToColombiaTime)
next
  assume "0 < d \<and> 0 < h"
  then show "calculateWorkingDateTime svc now (Some d) (Some h) (Some anchor) =
        colombiaTimeToUtc
          (addWorkingHours svc
            (addWorkingDays svc
              (utcToColombiaTime
                (if isWorkingDay svc anchor \<and> isWithinBusinessHours (utcToColombiaTime anchor)
                 then anchor else adjustToPreviousWorkingTime svc anchor)) d) h)"
    by (simp add: calculateWorkingDateTime_unfold startingPoint_def Let_def)
qed

text \<open>Tuesday 2025-01-07: at 09:00 local time nothing changes; from 15:00 local time, one day
  and three hours end on Thursday the 9th at 09:00 local time (14:00 UTC).\<close>

theorem calculateWorkingDateTime_identity_and_order_witness:
  "calculateWorkingDateTime \<lparr> allHolidaysCache = None, provider = None \<rparr> 0
      (Some 0) None (Some 1736258400000) = 1736258400000 \<and>
   calculateWorkingDateTime \<lparr> allHolidaysCache = None, provider = None \<rparr> 0
      (Some 1) (Some 3) (Some 1736280000000) = 1736431200000"
proof -
  have v1: "isWorkingDay \<lparr> allHolidaysCache = None, provider = None \<rparr> 1736258400000 \<and>
      isWithinBusinessHours (utcToColombiaTime 1736258400000)"
    by code_simp
  have v2: "isWorkingDay \<lparr> allHolidaysCache = None, provider = None \<rparr> 1736280000000 \<and>
      isWithinBusinessHours (utcToColombiaTime 1736280000000)"
    by code_simp
  have r: "colombiaTimeToUtc
          (addWorkingHours \<lparr> allHolidaysCache = None, provider = None \<rparr>
            (addWorkingDays \<lparr> allHolidaysCache = None, provider = None \<rparr>
              (utcToColombiaTime 1736280000000) 1) 3) = 1736431200000"
    by code_simp
  show ?thesis
    using calculateWorkingDateTime_identity_and_order
        [where svc = "\<lparr> allHolidaysCache = None, provider = None \<rparr>" and now = 0
          and days = "Some 0" and hours = None and anchor = 1736258400000 and d = 1 and h = 1]
      calculateWorkingDateTime_identity_and_order
        [where svc = "\<lparr> allHolidaysCache = None, provider = None \<rparr>" and now = 0
          and days = None and hours = None and anchor = 1736280000000 and d = 1 and h = 3]
      v1 v2 r
    by simp
qed

section \<open>Backward anchoring at the end of lunch\<close>

text \<open>
  C1. \<open>adjustToPreviousWorkingTime\<close> is meant to end on a working day within business hours,
  also for an anchor at exactly 13:00 local time. It does not: on a working day, a reading at
  13:00 is outside business hours (\<open>isWithinBusinessHours\<close> excludes the end of lunch), yet it
  is neither before the start, nor after the end, nor inside the lunch window as
  \<open>adjustToPreviousWorkingTime\<close> tests it (strictly before 13:00), so the anchor is returned
  as it is.
\<close>

theorem adjustToPreviousWorkingTime_keeps_lunch_end:
  "isWorkingDay svc t \<and> hour (utcToColombiaTime t) = 13 \<and> minute (utcToColombiaTime t) = 0 \<longrightarrow>
     adjustToPreviousWorkingTime svc t = t \<and>
     \<not> isWithinBusinessHours (utcToColombiaTime (adjustToPreviousWorkingTime svc t))"
proof
  assume a: "isWorkingDay svc t \<and> hour (utcToColombiaTime t) = 13 \<and> minute (utcToColombiaTime t) = 0"
  define c where "c = utcToColombiaTime t"
  have t: "t = toJSDate c" by (simp add: c_def toJSDate_utcToColombiaTime)
  have w: "adjustToWorkingDay svc c = c" using a by (simp add: adjustToWorkingDay_done t [symmetric])
  have n: "\<not> isWithinBusinessHours c"
    using a by (simp add: isWithinBusinessHours_def BusinessHoursConfig_def c_def)
  have "adjustToPreviousWorkingTime svc t = colombiaTimeToUtc c"
    using a n by (subst adjustToPreviousWorkingTime.simps)
      (simp add: c_def [symmetric] w BusinessHoursConfig_def Let_def)
  then have "adjustToPreviousWorkingTime svc t = t" by (simp add: colombiaTimeToUtc_def t)
  with n show "adjustToPreviousWorkingTime svc t = t \<and>
     \<not> isWithinBusinessHours (utcToColombiaTime (adjustToPreviousWorkingTime svc t))"
    by (simp add: c_def)
qed

text \<open>Wednesday 2025-01-08 at 13:00 in Bogota (18:00 UTC), no holidays.\<close>

theorem adjustToPreviousWorkingTime_keeps_lunch_end_witness:
  "adjustToPreviousWorkingTime \<lparr> allHolidaysCache = None, provider = None \<rparr> 1736359200000
     = 1736359200000 \<and>
   \<not> isWithinBusinessHours (utcToColombiaTime
        (adjustToPreviousWorkingTime \<lparr> allHolidaysCache = None, provider = None \<rparr> 1736359200000))"
proof -
  have "isWorkingDay \<lparr> allHolidaysCache = None, provider = None \<rparr> 1736359200000 \<and>
      hour (utcToColombiaTime 1736359200000) = 13 \<and> minute (utcToColombiaTime 1736359200000) = 0"
    by code_simp
  then show ?thesis
    using adjustToPreviousWorkingTime_keeps_lunch_end
      [of "\<lparr> allHolidaysCache = None, provider = None \<rparr>" 1736359200000] by blast
qed

text \<open>The result can also fall on a holiday: from 19:00 local time on, \<open>isWorkingDay\<close> looks up
  the following day, so an evening of a holiday passes as a working day and is moved to 17:00
  of the same civil date. Monday 2025-01-06 at 20:00 in Bogota, with that Monday in the list:\<close>

text \<open>The result can also fall on a holiday: from 19:00 local time on, \<open>isWorkingDay\<close> looks up
  the following day, so the evening of a holiday passes as a working day and is moved to 17:00
  of the same civil date. Monday 2025-01-06 at 20:00 in Bogota, with that Monday in the list:\<close>

lemma adjustToPreviousWorkingTime_lands_on_holiday:
  "adjustToPreviousWorkingTime \<lparr> allHolidaysCache = None, provider = Some [''2025-01-06''] \<rparr>
      1736211600000 = 1736200800000 \<and>
   isoDate (civilFromDay (Day (localMillis (utcToColombiaTime 1736200800000)))) = ''2025-01-06''"
  by code_simp

section \<open>Holidays when the provider has no data\<close>

text \<open>
  C2. \<open>isHoliday\<close> is meant to fall back on the locally computed holidays of the year when the
  provider has nothing for that year. It does not: it looks the date up in the provider's list
  only, so with a failed request every date is reported as no holiday, New Year's Day included.
\<close>

theorem isHoliday_provider_list_only:
  "(fst (isHoliday svc t) \<longleftrightarrow> toISODate t \<in> set (fst (fetchAllHolidays svc))) \<and>
   (allHolidaysCache svc = None \<and> provider svc = None \<longrightarrow> \<not> fst (isHoliday svc t))"
  by (auto simp: isHoliday_def fetchAllHolidays_def Let_def split: prod.splits option.splits)

lemma fixedHoliday_member:
  "h \<in> set FIXED_HOLIDAYS \<Longrightarrow> fixedHoliday tz year h \<in> set (calculateColombianHolidays tz year)"
  by (simp add: calculateColombianHolidays_def Let_def)

text \<open>2025-01-01T12:00Z with a failed request and no memo: no holiday for \<open>isHoliday\<close>, although
  the locally computed holidays of 2025 hold New Year's Day.\<close>

theorem isHoliday_provider_list_only_witness:
  "\<not> fst (isHoliday \<lparr> allHolidaysCache = None, provider = None \<rparr> 1735732800000) \<and>
   toISODate 1735732800000 = ''2025-01-01'' \<and>
   \<lparr> date = ''2025-01-01'', name = ''Ano Nuevo'', type = national \<rparr>
     \<in> set (calculateColombianHolidays 0 2025)"
proof -
  have "(1, 1, ''Ano Nuevo'') \<in> set FIXED_HOLIDAYS" by (simp add: FIXED_HOLIDAYS_def)
  then have "fixedHoliday 0 2025 (1, 1, ''Ano Nuevo'') \<in> set (calculateColombianHolidays 0 2025)"
    by (rule fixedHoliday_member)
  moreover have "fixedHoliday 0 2025 (1, 1, ''Ano Nuevo'') =
      \<lparr> date = ''2025-01-01'', name = ''Ano Nuevo'', type = national \<rparr>"
    by code_simp
  moreover have "toISODate 1735732800000 = ''2025-01-01''" by (simp add: calendar_eval)
  ultimately show ?thesis
    using isHoliday_provider_list_only
      [of "\<lparr> allHolidaysCache = None, provider = None \<rparr>" 1735732800000]
    by (simp add: fetchAllHolidays_def)
qed

section \<open>The length of the backward search\<close>

text \<open>The number of turns of the loop of \<open>adjustToPreviousWorkingTime\<close>: a count that the
  program does not keep, defined along the loop.\<close>

function adjustToWorkingDay_turns :: "HolidayService \<Rightarrow> DateTime \<Rightarrow> nat" where
  "adjustToWorkingDay_turns svc currentDate =
    (if \<not> isWorkingDay svc (toJSDate currentDate)
     then Suc (adjustToWorkingDay_turns svc (previousDayEnd currentDate))
     else 0)"
  by pat_completeness auto

termination adjustToWorkingDay_turns
  by (relation "measure (\<lambda>(svc, c). backMeasure svc c)") (simp_all add: backMeasure_decreases)

declare adjustToWorkingDay_turns.simps [simp del]

lemma turns_step:
  "\<not> isWorkingDay svc (toJSDate c) \<Longrightarrow>
    adjustToWorkingDay_turns svc c = Suc (adjustToWorkingDay_turns svc (previousDayEnd c))"
  by (subst adjustToWorkingDay_turns.simps) simp

lemma turns_done: "isWorkingDay svc (toJSDate c) \<Longrightarrow> adjustToWorkingDay_turns svc c = 0"
  by (subst adjustToWorkingDay_turns.simps) simp

lemma turns_run:
  "(\<forall>j. k - int n < j \<and> j \<le> k \<longrightarrow> \<not> workingDate svc j) \<Longrightarrow>
    n \<le> adjustToWorkingDay_turns svc (dayEnd k)"
proof (induction n arbitrary: k)
  case 0
  then show ?case by simp
next
  case (Suc n)
  have nw: "\<not> isWorkingDay svc (toJSDate (dayEnd k))"
    using Suc.prems by (simp add: isWorkingDay_dayEnd)
  have "\<forall>j. k - 1 - int n < j \<and> j \<le> k - 1 \<longrightarrow> \<not> workingDate svc j"
    using Suc.prems by auto
  then have "n \<le> adjustToWorkingDay_turns svc (dayEnd (k - 1))" by (rule Suc.IH)
  then show ?case using nw by (simp add: turns_step previousDayEnd_eq Day_dayEnd)
qed

lemma turns_exact:
  assumes "workingDate svc (k - int n)" "\<forall>j. k - int n < j \<and> j \<le> k \<longrightarrow> \<not> workingDate svc j"
  shows "adjustToWorkingDay_turns svc (dayEnd k) = n"
  using assms
proof (induction n arbitrary: k)
  case 0
  then show ?case by (simp add: turns_done isWorkingDay_dayEnd)
next
  case (Suc n)
  have nw: "\<not> isWorkingDay svc (toJSDate (dayEnd k))"
    using Suc.prems by (simp add: isWorkingDay_dayEnd)
  have "workingDate svc (k - 1 - int n)" using Suc.prems(1) by (simp add: algebra_simps)
  moreover have "\<forall>j. k - 1 - int n < j \<and> j \<le> k - 1 \<longrightarrow> \<not> workingDate svc j"
    using Suc.prems(2) by auto
  ultimately have "adjustToWorkingDay_turns svc (dayEnd (k - 1)) = n" by (rule Suc.IH)
  then show ?case using nw by (simp add: turns_step previousDayEnd_eq Day_dayEnd)
qed

text \<open>A provider list that holds every day from \<open>a\<close> to \<open>b\<close>.\<close>

definition holidayRun :: "int \<Rightarrow> int \<Rightarrow> HolidayService" where
  "holidayRun a b =
    \<lparr> allHolidaysCache = None, provider = Some (map (\<lambda>j. isoDate (civilFromDay j)) [a..b]) \<rparr>"

lemma holidayDays_holidayRun: "holidayDays (holidayRun a b) = {a..b}"
proof -
  have "fst (fetchAllHolidays (holidayRun a b)) = map (\<lambda>j. isoDate (civilFromDay j)) [a..b]"
    by (simp add: fetchAllHolidays_def holidayRun_def)
  then have "holidayDays (holidayRun a b) = {d. isoDate (civilFromDay d) \<in> (\<lambda>j. isoDate (civilFromDay j)) ` {a..b}}"
    by (simp add: holidayDays_def)
  also have "\<dots> = {a..b}"
    using isoDate_civilFromDay_inj by auto
  finally show ?thesis .
qed

lemma workingDate_holidayRun:
  "workingDate (holidayRun a b) k \<longleftrightarrow>
     (k + 3) mod 7 + 1 \<noteq> 6 \<and> (k + 3) mod 7 + 1 \<noteq> 7 \<and> \<not> (a \<le> k \<and> k \<le> b)"
  by (simp add: workingDate_iff holidayDays_holidayRun)

lemma adjustToWorkingDay_unique:
  assumes "n \<le> k" "workingDate svc n" "\<forall>j. n < j \<and> j \<le> k \<longrightarrow> \<not> workingDate svc j"
  shows "adjustToWorkingDay svc (dayEnd k) = dayEnd n"
proof -
  obtain n' where n': "adjustToWorkingDay svc (dayEnd k) = dayEnd n'" "n' \<le> k"
      "workingDate svc n'" "\<forall>j. n' < j \<and> j \<le> k \<longrightarrow> \<not> workingDate svc j"
    using adjustToWorkingDay_last [of svc k] by blast
  have "\<not> n' < n" using n'(4) assms(1,2) by auto
  moreover have "\<not> n < n'" using assms(3) n'(2,3) by auto
  ultimately have "n' = n" by simp
  with n'(1) show ?thesis by simp
qed

lemma previousDayEnd_less: "localMillis (previousDayEnd c) < localMillis c"
proof -
  have "msPerDay * (localMillis c div msPerDay) \<le> localMillis c"
    by (rule div_lower) (simp add: msPerDay_def)
  then show ?thesis
    by (simp add: previousDayEnd_eq dayEnd_def Day_def msPerDay_def msPerHour_def algebra_simps)
qed

lemma adjustToWorkingDay_le: "localMillis (adjustToWorkingDay svc c) \<le> localMillis c"
proof (induction svc c rule: adjustToWorkingDay.induct)
  case (1 svc c)
  show ?case
  proof (cases "isWorkingDay svc (toJSDate c)")
    case True
    then show ?thesis by (simp add: adjustToWorkingDay_done)
  next
    case False
    with 1 previousDayEnd_less [of c] show ?thesis by (simp add: adjustToWorkingDay_step)
  qed
qed

lemma setTime_le_self:
  assumes "h < hour c \<or> (h = hour c \<and> m \<le> minute c)" "0 \<le> m" "m < 60"
  shows "localMillis (setTime c h m) \<le> localMillis c"
proof -
  define s where "s = localMillis c mod msPerMinute"
  have s: "0 \<le> s" using sub_minute_range [of c] by (simp add: s_def)
  have mc: "0 \<le> minute c" "minute c < 60" using minute_range [of c] by simp_all
  have e: "localMillis (setTime c h m) - localMillis c =
      h * 3600000 - hour c * 3600000 + m * 60000 - minute c * 60000 - s"
    using diffMillis_setTime_self [of c h m]
    by (simp add: diffMillis_def s_def msPerHour_def msPerMinute_def algebra_simps)
  show ?thesis
  proof (cases "h < hour c")
    case True
    then have "h + 1 \<le> hour c" by simp
    with e s mc assms(2,3) show ?thesis by linarith
  next
    case False
    with assms(1) have "h = hour c" "m \<le> minute c" by auto
    with e s show ?thesis by simp
  qed
qed

text \<open>The last two steps of \<open>adjustToPreviousWorkingTime\<close>, for a reading that is not before
  the start of business.\<close>

definition snapWithinDay :: "DateTime \<Rightarrow> Date" where
  "snapWithinDay currentDate =
    (let cfg = BusinessHoursConfig;
         currentDate1 =
           (if hour currentDate > endHour cfg \<or>
               (hour currentDate = endHour cfg \<and> minute currentDate > endMinute cfg)
            then setTime currentDate (endHour cfg) (endMinute cfg)
            else currentDate);
         currentDate2 =
           (if (hour currentDate1 > lunchStartHour cfg \<or>
                (hour currentDate1 = lunchStartHour cfg \<and>
                 minute currentDate1 \<ge> lunchStartMinute cfg)) \<and>
               (hour currentDate1 < lunchEndHour cfg \<or>
                (hour currentDate1 = lunchEndHour cfg \<and>
                 minute currentDate1 < lunchEndMinute cfg))
            then setTime currentDate1 (lunchStartHour cfg) (lunchStartMinute cfg)
            else currentDate1)
     in colombiaTimeToUtc currentDate2)"

lemma adjustToPreviousWorkingTime_cases:
  "adjustToPreviousWorkingTime svc d =
    (let currentDate = adjustToWorkingDay svc (utcToColombiaTime d)
     in if \<not> isWithinBusinessHours currentDate then
          if hour currentDate < 8 then
            adjustToPreviousWorkingTime svc (colombiaTimeToUtc (previousDayEnd currentDate))
          else snapWithinDay currentDate
        else colombiaTimeToUtc currentDate)"
proof -
  have "hour c < startHour BusinessHoursConfig \<or>
       (hour c = startHour BusinessHoursConfig \<and> minute c < startMinute BusinessHoursConfig)
      \<longleftrightarrow> hour c < 8" for c
    using minute_nonneg [of c] by (auto simp: BusinessHoursConfig_def)
  then show ?thesis
    by (subst adjustToPreviousWorkingTime.simps) (simp only: snapWithinDay_def Let_def)
qed

lemma snapWithinDay_le: "snapWithinDay c \<le> colombiaTimeToUtc c"
  using setTime_le_self [of 17 c 0] setTime_le_self [of 12 c 0]
    setTime_le_self [of 12 "setTime c 17 0" 0]
  by (auto simp: snapWithinDay_def Let_def BusinessHoursConfig_def colombiaTimeToUtc_def
      toJSDate_eq)

lemma adjustToPreviousWorkingTime_le: "adjustToPreviousWorkingTime svc t \<le> t"
proof (induction svc t rule: adjustToPreviousWorkingTime.induct)
  case (1 svc t)
  define cur where "cur = adjustToWorkingDay svc (utcToColombiaTime t)"
  have "localMillis cur \<le> t - 5 * msPerHour"
    using adjustToWorkingDay_le [of svc "utcToColombiaTime t"]
    by (simp add: cur_def localMillis_utcToColombiaTime)
  then have cur: "colombiaTimeToUtc cur \<le> t" by (simp add: colombiaTimeToUtc_def toJSDate_eq)
  show ?case
  proof (cases "isWithinBusinessHours cur")
    case True
    with cur show ?thesis
      by (subst adjustToPreviousWorkingTime_cases) (simp add: cur_def [symmetric] Let_def)
  next
    case nw: False
    show ?thesis
    proof (cases "hour cur < 8")
      case True
      have "adjustToPreviousWorkingTime svc (colombiaTimeToUtc (previousDayEnd cur))
          \<le> colombiaTimeToUtc (previousDayEnd cur)"
        using nw True
        by (intro 1 [OF refl, of cur]) (simp_all add: cur_def BusinessHoursConfig_def)
      moreover have "colombiaTimeToUtc (previousDayEnd cur) < colombiaTimeToUtc cur"
        using previousDayEnd_less [of cur] by (simp add: colombiaTimeToUtc_def toJSDate_eq)
      ultimately show ?thesis using cur nw True
        by (subst adjustToPreviousWorkingTime_cases) (simp add: cur_def [symmetric] Let_def)
    next
      case False
      with nw cur snapWithinDay_le [of cur] show ?thesis
        by (subst adjustToPreviousWorkingTime_cases) (simp add: cur_def [symmetric] Let_def)
    qed
  qed
qed

lemma turns_unbounded: "\<exists>svc. n < adjustToWorkingDay_turns svc c"
proof -
  define D where "D = Day (localMillis c)"
  define svc where "svc = holidayRun (D - int n - 2) (D + 2)"
  have "Day (toJSDate c) \<in> holidayDays svc"
    using Day_toJSDate [of c] by (auto simp: svc_def holidayDays_holidayRun D_def)
  then have nw: "\<not> isWorkingDay svc (toJSDate c)" by (simp add: isWorkingDay_iff)
  have "\<forall>j. D - 1 - int n < j \<and> j \<le> D - 1 \<longrightarrow> \<not> workingDate svc j"
    by (auto simp: svc_def workingDate_holidayRun)
  then have "n \<le> adjustToWorkingDay_turns svc (dayEnd (D - 1))" by (rule turns_run)
  then have "n < adjustToWorkingDay_turns svc c"
    using nw by (simp add: turns_step previousDayEnd_eq D_def)
  then show ?thesis by blast
qed

text \<open>
  C5 as claimed: the backward search is a bounded iteration that raises a fatal condition once
  a cap of about 400 steps is exceeded. The program has no such cap and raises nothing: with a
  provider list that holds each of the 501 days up to 2024-10-04 (day 20000), the search from
  that day at 17:00 local time (22:00 UTC) takes 501 turns and returns 2023-05-22 at 22:00 UTC.
\<close>

theorem adjustToPreviousWorkingTime_cap_counterexample:
  "400 < adjustToWorkingDay_turns (holidayRun 19500 20000) (utcToColombiaTime 1728079200000) \<and>
   adjustToWorkingDay_turns (holidayRun 19500 20000) (utcToColombiaTime 1728079200000) = 501 \<and>
   adjustToPreviousWorkingTime (holidayRun 19500 20000) 1728079200000 = 1684792800000"
proof -
  let ?svc = "holidayRun 19500 20000"
  have c: "utcToColombiaTime 1728079200000 = dayEnd 20000"
    by (simp add: utcToColombiaTime_def fromJSDate_def bogotaOffset_def dayEnd_def msPerHour_def
        msPerDay_def)
  have w: "workingDate ?svc 19499" by (simp add: workingDate_holidayRun)
  have n: "\<forall>j. 19499 < j \<and> j \<le> 20000 \<longrightarrow> \<not> workingDate ?svc j"
    by (simp add: workingDate_holidayRun)
  have "adjustToWorkingDay_turns ?svc (dayEnd 20000) = 501"
    using turns_exact [of ?svc 20000 501] w n by simp
  moreover have "adjustToWorkingDay ?svc (dayEnd 20000) = dayEnd 19499"
    using w n by (intro adjustToWorkingDay_unique) simp_all
  then have "adjustToPreviousWorkingTime ?svc 1728079200000 = colombiaTimeToUtc (dayEnd 19499)"
    by (subst adjustToPreviousWorkingTime_cases) (simp add: c isWithinBusinessHours_dayEnd Let_def)
  then have "adjustToPreviousWorkingTime ?svc 1728079200000 = 1684792800000"
    by (simp add: colombiaTimeToUtc_def toJSDate_eq dayEnd_def msPerHour_def msPerDay_def)
  ultimately show ?thesis by (simp add: c)
qed

text \<open>
  C5 as amended: the backward search has no iteration cap and raises no condition. It is a
  loop followed by a call of the function itself for a time before the start of business. Each
  turn of the loop strictly decreases the candidate; the search ends for every provider list,
  at an instant that is not after the anchor; and the number of turns is bounded by no
  constant: for every number there is a provider list for which the loop takes more turns.
\<close>

theorem adjustToPreviousWorkingTime_decreasing_uncapped:
  "localMillis (previousDayEnd c) < localMillis c \<and>
   adjustToPreviousWorkingTime svc t \<le> t \<and>
   (\<exists>svc'. n < adjustToWorkingDay_turns svc' c)"
  using previousDayEnd_less [of c] adjustToPreviousWorkingTime_le [of svc t]
    turns_unbounded [of n c]
  by simp

theorem adjustToPreviousWorkingTime_decreasing_uncapped_witness:
  "localMillis (previousDayEnd (DateTime 1728061200000)) < 1728061200000 \<and>
   adjustToPreviousWorkingTime (holidayRun 19500 20000) 1728079200000 \<le> 1728079200000 \<and>
   (\<exists>svc'. 400 < adjustToWorkingDay_turns svc' (DateTime 1728061200000))"
  using adjustToPreviousWorkingTime_decreasing_uncapped
    [of "DateTime 1728061200000" "holidayRun 19500 20000" 1728079200000 400]
  by simp

end
